theory Spec2Isabelle
  imports Complex_Main "HOL-Library.Sublist"
begin

section \<open>Data model\<close>

text \<open>
  An entity is \<open>T extends Pick<Record, 'id'>\<close>: a string \<open>id\<close> and fields the stores never
  read. The field is called \<open>id_str\<close> because \<open>id\<close> is the identity function of HOL.
\<close>

record 'p entity =
  id_str :: string
  body :: 'p

text \<open>
  \<open>RecordSubscription<T>\<close> of the backend client: \<open>{ action: string; record: T }\<close>. The
  action is a string in the source, so the \<open>default\<close> branch of each \<open>switch\<close> is reachable.
  The field \<open>record\<close> is called \<open>recordT\<close> (the word is reserved).
\<close>

record 'p RecordSubscription =
  action :: string
  recordT :: "'p entity"

text \<open>Query parameters: only \<open>expand\<close> is read by the stores, the rest is passed on.\<close>

record RecordListQueryParams =
  expand :: "string option"
  sort_param :: "string option"
  filter_param :: "string option"

section \<open>JavaScript numbers\<close>

text \<open>
  A \<open>number\<close> of the source is an IEEE 754 double: not-a-number, the two infinities, or
  a finite value, a real that a double holds (the two zeros are one value here; they
  compare equal). \<open>js_lt\<close> and \<open>js_le\<close> are \<open><\<close> and \<open><=\<close>: every comparison with NaN is false.
\<close>

datatype number = NaN | PosInf | NegInf | Fin real

fun js_lt :: "number \<Rightarrow> number \<Rightarrow> bool" where
  "js_lt NaN b = False"
| "js_lt a NaN = False"
| "js_lt PosInf b = False"
| "js_lt a NegInf = False"
| "js_lt NegInf b = True"
| "js_lt a PosInf = True"
| "js_lt (Fin x) (Fin y) = (x < y)"

fun js_le :: "number \<Rightarrow> number \<Rightarrow> bool" where
  "js_le NaN b = False"
| "js_le a NaN = False"
| "js_le NegInf b = True"
| "js_le a PosInf = True"
| "js_le PosInf b = False"
| "js_le a NegInf = False"
| "js_le (Fin x) (Fin y) = (x \<le> y)"

text \<open>
  \<open>+\<close> and \<open>-\<close> round the exact result to the nearest double, ties to the even
  significand: \<open>exponent x\<close> is the \<open>e\<close> with \<open>2^e \<le> x < 2^(e+1)\<close>, a double has 53
  significant bits (fewer below \<open>2^-1022\<close>), and a rounded magnitude of \<open>2^1024\<close> or
  more is an infinity.
\<close>

fun bit_count :: "nat \<Rightarrow> nat" where
  "bit_count n = (if n = 0 then 0 else Suc (bit_count (n div 2)))"

declare bit_count.simps [simp del]

definition pow2 :: "int \<Rightarrow> real" where
  "pow2 e = (if 0 \<le> e then 2 ^ nat e else 1 / 2 ^ nat (- e))"

definition exponent :: "real \<Rightarrow> int" where
  "exponent x =
     (if 1 \<le> x then int (bit_count (nat \<lfloor>x\<rfloor>)) - 1
      else - int (bit_count (nat (\<lceil>1 / x\<rceil> - 1))))"

definition round_even :: "real \<Rightarrow> int" where
  "round_even r =
     (if r - of_int \<lfloor>r\<rfloor> < 1 / 2 then \<lfloor>r\<rfloor>
      else if 1 / 2 < r - of_int \<lfloor>r\<rfloor> then \<lfloor>r\<rfloor> + 1
      else if even \<lfloor>r\<rfloor> then \<lfloor>r\<rfloor> else \<lfloor>r\<rfloor> + 1)"

definition fl :: "real \<Rightarrow> number" where
  "fl x =
     (if x = 0 then Fin 0
      else
        let q = pow2 (max (exponent \<bar>x\<bar>) (- 1022) - 52);
            y = of_int (round_even (\<bar>x\<bar> / q)) * q
        in if pow2 1024 \<le> y then (if 0 < x then PosInf else NegInf)
           else Fin (if 0 < x then y else - y))"

fun js_add :: "number \<Rightarrow> number \<Rightarrow> number" where
  "js_add NaN b = NaN"
| "js_add a NaN = NaN"
| "js_add PosInf NegInf = NaN"
| "js_add NegInf PosInf = NaN"
| "js_add PosInf b = PosInf"
| "js_add NegInf b = NegInf"
| "js_add a PosInf = PosInf"
| "js_add a NegInf = NegInf"
| "js_add (Fin x) (Fin y) = fl (x + y)"

fun js_neg :: "number \<Rightarrow> number" where
  "js_neg NaN = NaN"
| "js_neg PosInf = NegInf"
| "js_neg NegInf = PosInf"
| "js_neg (Fin x) = Fin (- x)"

definition js_sub :: "number \<Rightarrow> number \<Rightarrow> number" where
  "js_sub a b = js_add a (js_neg b)"

text \<open>\<open>ListResult<T>\<close>: one page of a collection with its metadata.\<close>

record 'p ListResult =
  page :: number
  perPage :: number
  totalItems :: number
  totalPages :: number
  items :: "'p entity list"

text \<open>A rejected promise of the backend client carries a \<open>ClientResponseError\<close> (its status).\<close>

datatype error = ClientResponseError nat

text \<open>
  The handle \<open>ReturnType<Client['collection']>\<close>. Its reads are the answers the backend gives
  at the moment of the call; a read either rejects (\<open>Inl\<close>) or resolves (\<open>Inr\<close>).
\<close>

record 'p collection =
  collectionIdOrName :: string
  getOne :: "string \<Rightarrow> RecordListQueryParams option \<Rightarrow> error + 'p entity"
  getFullList :: "RecordListQueryParams option \<Rightarrow> error + 'p entity list"
  getList :: "number \<Rightarrow> number \<Rightarrow> RecordListQueryParams option \<Rightarrow> error + 'p ListResult"

text \<open>
  Every function that may talk to the backend returns, beside its result, the list of
  backend calls it issued, in the order it issued them.
\<close>

datatype call =
    GetOne string "RecordListQueryParams option"
  | GetFullList "RecordListQueryParams option"
  | GetList number number "RecordListQueryParams option"

section \<open>The expansion resolver (internal.ts)\<close>

text \<open>
  \<open>expand ? await collection.getOne(record.id, typeof expand === 'string' ? { expand } : undefined) : record\<close>.
  \<open>expand\<close> is \<open>string | undefined\<close>: it is falsy when undefined and when the empty string.
  A truthy \<open>expand\<close> is a string, so the parameters are always the object \<open>{ expand }\<close>.
\<close>

definition truthy_str :: "string option \<Rightarrow> bool" where
  "truthy_str e = (case e of None \<Rightarrow> False | Some s \<Rightarrow> s \<noteq> [])"

definition expand_only :: "string option \<Rightarrow> RecordListQueryParams" where
  "expand_only e = \<lparr>expand = e, sort_param = None, filter_param = None\<rparr>"

definition realtimeStoreExpand ::
  "'p collection \<Rightarrow> 'p entity \<Rightarrow> string option \<Rightarrow> (error + 'p entity) \<times> call list" where
  "realtimeStoreExpand col r e =
     (if truthy_str e
      then (getOne col (id_str r) (Some (expand_only e)), [GetOne (id_str r) (Some (expand_only e))])
      else (Inr r, []))"

text \<open>\<open>queryParams?.expand\<close>\<close>

definition expand_of :: "RecordListQueryParams option \<Rightarrow> string option" where
  "expand_of qp = (case qp of None \<Rightarrow> None | Some q \<Rightarrow> expand q)"

section \<open>Reconciliation of one event (collection.ts, record.ts)\<close>

text \<open>
  \<open>collectionStoreCallback\<close>. An \<open>await\<close> on a rejected read rejects the whole callback, so
  the error is the result. The last component is the list of backend calls.
\<close>

definition collectionStoreCallback ::
  "'p entity list \<Rightarrow> 'p RecordSubscription \<Rightarrow> 'p collection \<Rightarrow> RecordListQueryParams option
     \<Rightarrow> (error + 'p entity list) \<times> call list" where
  "collectionStoreCallback list subscription col queryParams =
     (if action subscription = ''update'' then
        (case realtimeStoreExpand col (recordT subscription) (expand_of queryParams) of
           (Inl err, cs) \<Rightarrow> (Inl err, cs)
         | (Inr r, cs) \<Rightarrow>
             (Inr (map (\<lambda>item. if id_str item = id_str r then r else item) list), cs))
      else if action subscription = ''create'' then
        (case realtimeStoreExpand col (recordT subscription) (expand_of queryParams) of
           (Inl err, cs) \<Rightarrow> (Inl err, cs)
         | (Inr r, cs) \<Rightarrow> (Inr (list @ [r]), cs))
      else if action subscription = ''delete'' then
        (Inr (filter (\<lambda>item. id_str item \<noteq> id_str (recordT subscription)) list), [])
      else (Inr list, []))"

text \<open>\<open>paginatedCollectionStoreCallback\<close>: the same switch over \<open>list.items\<close>.\<close>

definition paginatedCollectionStoreCallback ::
  "'p ListResult \<Rightarrow> 'p RecordSubscription \<Rightarrow> 'p collection \<Rightarrow> RecordListQueryParams option
     \<Rightarrow> (error + 'p entity list) \<times> call list" where
  "paginatedCollectionStoreCallback list subscription col queryParams =
     (if action subscription = ''update'' then
        (case realtimeStoreExpand col (recordT subscription) (expand_of queryParams) of
           (Inl err, cs) \<Rightarrow> (Inl err, cs)
         | (Inr r, cs) \<Rightarrow>
             (Inr (map (\<lambda>item. if id_str item = id_str r then r else item) (items list)), cs))
      else if action subscription = ''create'' then
        (case realtimeStoreExpand col (recordT subscription) (expand_of queryParams) of
           (Inl err, cs) \<Rightarrow> (Inl err, cs)
         | (Inr r, cs) \<Rightarrow> (Inr (items list @ [r]), cs))
      else if action subscription = ''delete'' then
        (Inr (filter (\<lambda>item. id_str item \<noteq> id_str (recordT subscription)) (items list)), [])
      else (Inr (items list), []))"

text \<open>\<open>recordStoreCallback\<close>: the state is \<open>T | undefined\<close>, an option.\<close>

definition recordStoreCallback ::
  "'p entity option \<Rightarrow> 'p RecordSubscription \<Rightarrow> 'p collection \<Rightarrow> RecordListQueryParams option
     \<Rightarrow> (error + 'p entity option) \<times> call list" where
  "recordStoreCallback item subscription col queryParams =
     (if action subscription = ''update'' then
        (case realtimeStoreExpand col (recordT subscription) (expand_of queryParams) of
           (Inl err, cs) \<Rightarrow> (Inl err, cs)
         | (Inr r, cs) \<Rightarrow> (Inr (Some r), cs))
      else if action subscription = ''create'' then
        (case realtimeStoreExpand col (recordT subscription) (expand_of queryParams) of
           (Inl err, cs) \<Rightarrow> (Inl err, cs)
         | (Inr r, cs) \<Rightarrow> (Inr (Some r), cs))
      else if action subscription = ''delete'' then (Inr None, [])
      else (Inr item, []))"

section \<open>Options\<close>

text \<open>
  \<open>RecordStoreOptions<T>\<close> and \<open>CollectionStoreOptions<T, U>\<close> of types.ts, the second
  extending the first. \<open>PaginatedCollectionStoreOptions\<close> adds \<open>page\<close> and \<open>perPage\<close>, which
  \<open>paginatedCollectionStore\<close> takes apart in its parameter list (defaults 1 and 20); they
  are arguments of the functions below.
  \<open>'u\<close> is the type of the store's value. An optional field is an option; the filter
  predicate receives its \<open>this\<close> (the \<open>thisArg\<close> of \<open>Array.prototype.filter\<close>) as its first
  argument, then the value, the index and the array, and its result is read for truthiness.
\<close>

record 'u RecordStoreOptions =
  disableRealtime :: bool
  initial :: "'u option"
  queryParams :: "RecordListQueryParams option"

record ('p, 't, 'u) CollectionStoreOptions = "'u RecordStoreOptions" +
  sortFunction :: "('p entity \<Rightarrow> 'p entity \<Rightarrow> int) option"
  filterFunction :: "('t \<Rightarrow> 'p entity \<Rightarrow> nat \<Rightarrow> 'p entity list \<Rightarrow> bool) option"
  filterFunctionThisArg :: 't

section \<open>Array.prototype.sort and Array.prototype.filter\<close>

text \<open>
  \<open>ToString\<close> of an entity, a plain object: every entity gives the same string.
\<close>

definition toString_entity :: "'p entity \<Rightarrow> string" where
  "toString_entity x = ''[object Object]''"

text \<open>The order of strings that the default comparison uses: by code unit, then by length.\<close>

fun str_less :: "string \<Rightarrow> string \<Rightarrow> bool" where
  "str_less [] [] = False"
| "str_less [] (y # ys) = True"
| "str_less (x # xs) [] = False"
| "str_less (x # xs) (y # ys) =
     ((of_char x :: nat) < of_char y \<or> (x = y \<and> str_less xs ys))"

text \<open>
  \<open>SortCompare\<close> of ECMAScript: the comparator's number when one is given (only its sign
  is read), the comparison of the two \<open>ToString\<close> values when \<open>comparefn\<close> is undefined.
\<close>

definition SortCompare ::
  "('p entity \<Rightarrow> 'p entity \<Rightarrow> int) option \<Rightarrow> 'p entity \<Rightarrow> 'p entity \<Rightarrow> int" where
  "SortCompare comparefn x y =
     (case comparefn of
        Some f \<Rightarrow> f x y
      | None \<Rightarrow>
          (if str_less (toString_entity x) (toString_entity y) then - 1
           else if str_less (toString_entity y) (toString_entity x) then 1
           else 0))"

text \<open>
  \<open>items.sort(comparefn)\<close>: a stable sort (ECMAScript 2019), here by insertion. An element
  moves behind a later one only when the comparison of the two is positive. For a
  consistent comparator (\<open>consistent_comparator\<close> below) and for the absent one the
  language fixes the result, and this is it. For a comparator that is not consistent
  the language leaves the order to the implementation, and engines give other orders
  than this one (a comparator that never returns 0 makes an engine reverse ties that
  this function leaves in place); the result is a permutation of the array in every
  case. Statements below that depend on the order a sort produces assume a consistent
  comparator.
\<close>

fun sort_insert ::
  "('p entity \<Rightarrow> 'p entity \<Rightarrow> int) option \<Rightarrow> 'p entity \<Rightarrow> 'p entity list \<Rightarrow> 'p entity list" where
  "sort_insert comparefn x [] = [x]"
| "sort_insert comparefn x (y # ys) =
     (if 0 < SortCompare comparefn x y then y # sort_insert comparefn x ys else x # y # ys)"

fun js_sort ::
  "('p entity \<Rightarrow> 'p entity \<Rightarrow> int) option \<Rightarrow> 'p entity list \<Rightarrow> 'p entity list" where
  "js_sort comparefn [] = []"
| "js_sort comparefn (x # xs) = sort_insert comparefn x (js_sort comparefn xs)"

text \<open>
  \<open>arr.filter(predicate, thisArg)\<close>: the predicate is called with the value, its index
  and the whole array; the kept values stay in their order.
\<close>

fun filter_from :: "('a \<Rightarrow> nat \<Rightarrow> 'a list \<Rightarrow> bool) \<Rightarrow> 'a list \<Rightarrow> nat \<Rightarrow> 'a list \<Rightarrow> 'a list" where
  "filter_from f arr i [] = []"
| "filter_from f arr i (x # xs) =
     (if f x i arr then x # filter_from f arr (Suc i) xs else filter_from f arr (Suc i) xs)"

definition js_filter :: "('a \<Rightarrow> nat \<Rightarrow> 'a list \<Rightarrow> bool) \<Rightarrow> 'a list \<Rightarrow> 'a list" where
  "js_filter f arr = filter_from f arr 0 arr"

section \<open>The stores' event handlers\<close>

text \<open>
  The value that a handler passes to \<open>store.set\<close> and assigns to \<open>result\<close>:
  \<open>options.filterFunction ? items.sort(sortFunction).filter(filterFunction, thisArg) : items.sort(sortFunction)\<close>.
\<close>

definition sort_then_filter ::
  "('p, 't, 'u) CollectionStoreOptions \<Rightarrow> 'p entity list \<Rightarrow> 'p entity list" where
  "sort_then_filter options its =
     (case filterFunction options of
        Some f \<Rightarrow> js_filter (f (filterFunctionThisArg options)) (js_sort (sortFunction options) its)
      | None \<Rightarrow> js_sort (sortFunction options) its)"

text \<open>
  The handler given to \<open>collection.subscribe('*', ...)\<close> by \<open>collectionStore\<close>:
  \<open>collectionStoreCallback(result, data, collection, options.queryParams).then(items => store.set(result = ...))\<close>.
  This is the handler from the arrival of its event to its end when nothing else is
  handled in between (handlers that overlap are modelled further down). When the callback
  rejects, \<open>then\<close> does not run: \<open>result\<close> stays and the rejection is the handler's outcome. The
  components are the new \<open>result\<close> (the published value of the store), the rejection if
  any, and the backend calls.
\<close>

definition collectionStore_handler ::
  "('p, 't, 'p entity list) CollectionStoreOptions \<Rightarrow> 'p collection \<Rightarrow> 'p entity list
     \<Rightarrow> 'p RecordSubscription \<Rightarrow> 'p entity list \<times> error option \<times> call list" where
  "collectionStore_handler options col result data =
     (case collectionStoreCallback result data col (queryParams options) of
        (Inl err, cs) \<Rightarrow> (result, Some err, cs)
      | (Inr its, cs) \<Rightarrow> (sort_then_filter options its, None, cs))"

text \<open>
  The handler of \<open>paginatedCollectionStore\<close>:
  \<open>store.set(result = { ...result, items: ... })\<close>.
\<close>

definition paginatedCollectionStore_handler ::
  "('p, 't, 'p ListResult) CollectionStoreOptions \<Rightarrow> 'p collection \<Rightarrow> 'p ListResult
     \<Rightarrow> 'p RecordSubscription \<Rightarrow> 'p ListResult \<times> error option \<times> call list" where
  "paginatedCollectionStore_handler options col result data =
     (case paginatedCollectionStoreCallback result data col (queryParams options) of
        (Inl err, cs) \<Rightarrow> (result, Some err, cs)
      | (Inr its, cs) \<Rightarrow> (result\<lparr>items := sort_then_filter options its\<rparr>, None, cs))"

text \<open>The handler of \<open>recordStore\<close>: \<open>store.set(result = r)\<close>.\<close>

definition recordStore_handler ::
  "'p entity RecordStoreOptions \<Rightarrow> 'p collection \<Rightarrow> 'p entity option
     \<Rightarrow> 'p RecordSubscription \<Rightarrow> 'p entity option \<times> error option \<times> call list" where
  "recordStore_handler options col result data =
     (case recordStoreCallback result data col (queryParams options) of
        (Inl err, cs) \<Rightarrow> (result, Some err, cs)
      | (Inr r, cs) \<Rightarrow> (r, None, cs))"

section \<open>Loading and page navigation\<close>

text \<open>
  The load function of each store:
  \<open>result = options.initial ? options.initial : await collection.getFullList(undefined, options.queryParams)\<close>
  (\<open>getOne(id, queryParams)\<close> and \<open>getList(page, perPage, queryParams)\<close> for the other two).
  A rejected read leaves \<open>result\<close> as it was.
\<close>

definition collectionStore_load ::
  "('p, 't, 'p entity list) CollectionStoreOptions \<Rightarrow> 'p collection \<Rightarrow> 'p entity list
     \<Rightarrow> 'p entity list \<times> error option \<times> call list" where
  "collectionStore_load options col result =
     (case initial options of
        Some v \<Rightarrow> (v, None, [])
      | None \<Rightarrow>
          (case getFullList col (queryParams options) of
             Inl err \<Rightarrow> (result, Some err, [GetFullList (queryParams options)])
           | Inr v \<Rightarrow> (v, None, [GetFullList (queryParams options)])))"

text \<open>\<open>let result = new ListResult<T>(page, perPage, 0, 0, [])\<close>\<close>

definition paginatedCollectionStore_init :: "number \<Rightarrow> number \<Rightarrow> 'p ListResult" where
  "paginatedCollectionStore_init pg per =
     \<lparr>page = pg, perPage = per, totalItems = Fin 0, totalPages = Fin 0, items = []\<rparr>"

definition paginatedCollectionStore_load ::
  "number \<Rightarrow> number \<Rightarrow> ('p, 't, 'p ListResult) CollectionStoreOptions \<Rightarrow> 'p collection \<Rightarrow> 'p ListResult
     \<Rightarrow> 'p ListResult \<times> error option \<times> call list" where
  "paginatedCollectionStore_load pg per options col result =
     (case initial options of
        Some v \<Rightarrow> (v, None, [])
      | None \<Rightarrow>
          (case getList col pg per (queryParams options) of
             Inl err \<Rightarrow> (result, Some err, [GetList pg per (queryParams options)])
           | Inr v \<Rightarrow> (v, None, [GetList pg per (queryParams options)])))"

text \<open>
  \<open>setPage\<close>. The first argument is \<open>import.meta.env.SSR\<close>: on the server \<open>setPage\<close> is the
  empty function. In the browser:
  \<open>if (page > 0 && page <= result.totalPages) store.set(result = await collection.getList(page, result.perPage, options.queryParams))\<close>.
  \<open>page\<close> is any number. The guard and the arguments of the read are evaluated when
  \<open>setPage\<close> is called; a rejected read rejects \<open>setPage\<close> before the assignment.
\<close>

definition setPage ::
  "bool \<Rightarrow> ('p, 't, 'p ListResult) CollectionStoreOptions \<Rightarrow> 'p collection \<Rightarrow> 'p ListResult
     \<Rightarrow> number \<Rightarrow> 'p ListResult \<times> error option \<times> call list" where
  "setPage ssr options col result pg =
     (if ssr then (result, None, [])
      else if js_lt (Fin 0) pg \<and> js_le pg (totalPages result) then
        (case getList col pg (perPage result) (queryParams options) of
           Inl err \<Rightarrow> (result, Some err, [GetList pg (perPage result) (queryParams options)])
         | Inr r \<Rightarrow> (r, None, [GetList pg (perPage result) (queryParams options)]))
      else (result, None, []))"

text \<open>
  \<open>next: () => setPage(result.page + 1)\<close> and \<open>prev: () => setPage(result.page - 1)\<close>
  (\<open>next\<close> is a reserved word here, hence the suffix).
\<close>

definition next_page ::
  "bool \<Rightarrow> ('p, 't, 'p ListResult) CollectionStoreOptions \<Rightarrow> 'p collection \<Rightarrow> 'p ListResult
     \<Rightarrow> 'p ListResult \<times> error option \<times> call list" where
  "next_page ssr options col result = setPage ssr options col result (js_add (page result) (Fin 1))"

definition prev_page ::
  "bool \<Rightarrow> ('p, 't, 'p ListResult) CollectionStoreOptions \<Rightarrow> 'p collection \<Rightarrow> 'p ListResult
     \<Rightarrow> 'p ListResult \<times> error option \<times> call list" where
  "prev_page ssr options col result = setPage ssr options col result (js_sub (page result) (Fin 1))"

section \<open>A stream of events\<close>

text \<open>
  The handlers applied in turn, each to the sequence the one before it published. This
  is what a store publishes when no two handlers overlap (\<open>serial_in_turn\<close> below). Each
  event comes with the backend as it answers the read of that event.
\<close>

fun handled_in_turn ::
  "('p, 't, 'p entity list) CollectionStoreOptions \<Rightarrow> ('p collection \<times> 'p RecordSubscription) list
     \<Rightarrow> 'p entity list \<Rightarrow> 'p entity list" where
  "handled_in_turn options [] result = result"
| "handled_in_turn options ((col, data) # rest) result =
     handled_in_turn options rest (fst (collectionStore_handler options col result data))"

subsection \<open>Handlers that overlap\<close>

text \<open>
  In \<open>collectionStore\<close> the handler is
  \<open>(data) => collectionStoreCallback(result, data, ...).then((items) => store.set(result = ...))\<close>.
  \<open>result\<close> is read when the event arrives, and the callback keeps that array as \<open>list\<close>.
  The callback is an async function. For a delete or an unknown action it returns its
  array at once. For an update or a create it first awaits \<open>realtimeStoreExpand\<close>, which
  has issued the point read if there is an expand directive, and computes its array
  from \<open>list\<close> when it goes on. In each case the function given to \<open>then\<close> runs later
  still, and assigns \<open>result\<close> whatever \<open>result\<close> holds by then. Other events can arrive
  at each of these points: while a read is in flight, and, where the client delivers
  events in the same turn of the event loop, between the steps of one handler.

  Arrays are objects: \<open>map\<close>, the spread and \<open>filter\<close> make a new array, the default
  branch returns \<open>list\<close> itself, and \<open>sort\<close> sorts the array it is called on in place.
  So the store is a heap of arrays, the address \<open>result\<close> holds, and the handlers that
  have begun and not ended, in the order of their events.
\<close>

datatype 'p waiting =
    Reading nat "'p collection" "'p RecordSubscription"
  | Returned nat

record 'p live_store =
  heap :: "nat \<Rightarrow> 'p entity list"
  fresh :: nat
  result_at :: nat
  suspended :: "'p waiting list"

definition published :: "'p live_store \<Rightarrow> 'p entity list" where
  "published st = heap st (result_at st)"

definition store_holding :: "'p entity list \<Rightarrow> 'p live_store" where
  "store_holding xs = \<lparr>heap = (\<lambda>a. [])(0 := xs), fresh = 1, result_at = 0, suspended = []\<rparr>"

text \<open>A new array with the given elements; its address is the old \<open>fresh\<close>.\<close>

definition new_array :: "'p entity list \<Rightarrow> 'p live_store \<Rightarrow> 'p live_store" where
  "new_array xs st = st\<lparr>heap := (heap st)(fresh st := xs), fresh := Suc (fresh st)\<rparr>"

text \<open>
  The function given to \<open>then\<close>, for the array \<open>items\<close> at address \<open>a\<close>:
  \<open>result = filterFunction ? items.sort(sortFunction).filter(filterFunction, thisArg) : items.sort(sortFunction)\<close>.
  The sort is in place and returns \<open>items\<close>; the filter makes a new array.
\<close>

definition publish ::
  "('p, 't, 'p entity list) CollectionStoreOptions \<Rightarrow> nat \<Rightarrow> 'p live_store \<Rightarrow> 'p live_store" where
  "publish options a st =
     (case filterFunction options of
        None \<Rightarrow>
          st\<lparr>heap := (heap st)(a := js_sort (sortFunction options) (heap st a)), result_at := a\<rparr>
      | Some f \<Rightarrow>
          (new_array (js_filter (f (filterFunctionThisArg options))
                        (js_sort (sortFunction options) (heap st a)))
             (st\<lparr>heap := (heap st)(a := js_sort (sortFunction options) (heap st a))\<rparr>))
          \<lparr>result_at := fresh st\<rparr>)"

text \<open>
  An event arrives. The handler reads \<open>result\<close> and calls the callback, which runs to its
  first \<open>await\<close> (update, create: the read is issued if there is an expand directive) or to
  its \<open>return\<close> (delete: the new array of \<open>list.filter\<close>; any other action: \<open>list\<close>).
\<close>

definition arrive ::
  "('p, 't, 'p entity list) CollectionStoreOptions \<Rightarrow> 'p collection \<Rightarrow> 'p RecordSubscription
     \<Rightarrow> 'p live_store \<Rightarrow> 'p live_store \<times> call list" where
  "arrive options col data st =
     (if action data = ''update'' \<or> action data = ''create''
      then (st\<lparr>suspended := suspended st @ [Reading (result_at st) col data]\<rparr>,
            snd (realtimeStoreExpand col (recordT data) (expand_of (queryParams options))))
      else if action data = ''delete''
      then ((new_array (filter (\<lambda>item. id_str item \<noteq> id_str (recordT data)) (published st)) st)
              \<lparr>suspended := suspended st @ [Returned (fresh st)]\<rparr>, [])
      else (st\<lparr>suspended := suspended st @ [Returned (result_at st)]\<rparr>, []))"

text \<open>
  The \<open>k\<close>-th handler that has not ended takes its next step. A callback that awaited
  goes on: a rejected read ends the handler, \<open>result\<close> untouched; otherwise the callback
  returns the new array it computes from what \<open>list\<close> holds now. A callback that has
  returned has its array sorted, filtered and assigned, and the handler ends.
\<close>

definition resume ::
  "('p, 't, 'p entity list) CollectionStoreOptions \<Rightarrow> nat \<Rightarrow> 'p live_store
     \<Rightarrow> 'p live_store \<times> error option" where
  "resume options k st =
     (if k < length (suspended st) then
        (case suspended st ! k of
           Reading list col data \<Rightarrow>
             (case fst (collectionStoreCallback (heap st list) data col (queryParams options)) of
                Inl err \<Rightarrow>
                  (st\<lparr>suspended := take k (suspended st) @ drop (Suc k) (suspended st)\<rparr>,
                   Some err)
              | Inr its \<Rightarrow>
                  ((new_array its st)\<lparr>suspended := (suspended st)[k := Returned (fresh st)]\<rparr>,
                   None))
         | Returned a \<Rightarrow>
             (publish options a
                (st\<lparr>suspended := take k (suspended st) @ drop (Suc k) (suspended st)\<rparr>),
              None))
      else (st, None))"

text \<open>
  What happens to a store, in the order it happens: an event arrives, or the \<open>k\<close>-th
  handler that has not ended takes its next step.
\<close>

datatype 'p happening = Arrives "'p collection" "'p RecordSubscription" | Resumes nat

fun happen ::
  "('p, 't, 'p entity list) CollectionStoreOptions \<Rightarrow> 'p happening \<Rightarrow> 'p live_store \<Rightarrow> 'p live_store" where
  "happen options (Arrives col data) st = fst (arrive options col data st)"
| "happen options (Resumes k) st = fst (resume options k st)"

fun store_run ::
  "('p, 't, 'p entity list) CollectionStoreOptions \<Rightarrow> 'p happening list \<Rightarrow> 'p live_store \<Rightarrow> 'p live_store" where
  "store_run options [] st = st"
| "store_run options (h # rest) st = store_run options rest (happen options h st)"

text \<open>
  Handlers that do not overlap: the handler of each event has taken all its steps (two
  at most) before the next event arrives.
\<close>

definition serial :: "('p collection \<times> 'p RecordSubscription) list \<Rightarrow> 'p happening list" where
  "serial steps = concat (map (\<lambda>(col, data). [Arrives col data, Resumes 0, Resumes 0]) steps)"

text \<open>
  A consistent comparator in the sense of ECMAScript: the sign of \<open>c x y\<close> is the opposite
  of the sign of \<open>c y x\<close> (so \<open>c x x = 0\<close>), and \<open>< 0\<close> and \<open>= 0\<close> are transitive. For such a
  comparator the language fixes the result of the stable \<open>sort\<close>, and \<open>js_sort\<close> is it.
\<close>

definition consistent_comparator :: "('a \<Rightarrow> 'a \<Rightarrow> int) \<Rightarrow> bool" where
  "consistent_comparator c =
     ((\<forall>x y. (c x y < 0) = (0 < c y x))
      \<and> (\<forall>x y z. c x y < 0 \<and> c y z < 0 \<longrightarrow> c x z < 0)
      \<and> (\<forall>x y z. c x y = 0 \<and> c y z = 0 \<longrightarrow> c x z = 0))"

text \<open>
  What the testable property of the specification describes, written from its words: a
  table with one entity per id, where a create enters its entity, an update replaces the
  entity of an id that is in the table, a delete takes the id out, and an event whose
  expansion fails or whose action is unknown is not applied.
\<close>

definition entity_table :: "'p entity list \<Rightarrow> (string \<rightharpoonup> 'p entity)" where
  "entity_table xs = map_of (map (\<lambda>x. (id_str x, x)) xs)"

definition spec_apply ::
  "RecordListQueryParams option \<Rightarrow> (string \<rightharpoonup> 'p entity) \<Rightarrow> 'p collection \<times> 'p RecordSubscription
     \<Rightarrow> (string \<rightharpoonup> 'p entity)" where
  "spec_apply qp m step =
     (case step of (col, data) \<Rightarrow>
        if action data = ''create'' then
          (case fst (realtimeStoreExpand col (recordT data) (expand_of qp)) of
             Inl err \<Rightarrow> m | Inr r \<Rightarrow> m(id_str r \<mapsto> r))
        else if action data = ''update'' then
          (case fst (realtimeStoreExpand col (recordT data) (expand_of qp)) of
             Inl err \<Rightarrow> m
           | Inr r \<Rightarrow> (case m (id_str r) of None \<Rightarrow> m | Some old \<Rightarrow> m(id_str r \<mapsto> r)))
        else if action data = ''delete'' then m(id_str (recordT data) := None)
        else m)"

fun spec_live ::
  "RecordListQueryParams option \<Rightarrow> (string \<rightharpoonup> 'p entity)
     \<Rightarrow> ('p collection \<times> 'p RecordSubscription) list \<Rightarrow> (string \<rightharpoonup> 'p entity)" where
  "spec_live qp m [] = m"
| "spec_live qp m (step # rest) = spec_live qp (spec_apply qp m step) rest"

text \<open>
  A stream in which no create event brings an id that the sequence holds when the event
  is handled.
\<close>

fun creates_fresh ::
  "('p, 't, 'p entity list) CollectionStoreOptions \<Rightarrow> ('p collection \<times> 'p RecordSubscription) list
     \<Rightarrow> 'p entity list \<Rightarrow> bool" where
  "creates_fresh options [] result = True"
| "creates_fresh options ((col, data) # rest) result =
     ((if action data = ''create'' then
         (case fst (realtimeStoreExpand col (recordT data) (expand_of (queryParams options))) of
            Inl err \<Rightarrow> True
          | Inr r \<Rightarrow> id_str r \<notin> set (map id_str result))
       else True)
      \<and> creates_fresh options rest (fst (collectionStore_handler options col result data)))"

section \<open>Teardown\<close>

text \<open>
  \<open>unsubscribePromise\<close> is created once, when the store is built: already fulfilled with
  a function that calls nothing when \<open>disableRealtime\<close> is set, otherwise the promise of
  \<open>collection.subscribe\<close>, which the backend client later fulfils with its release
  function or rejects. The store's \<open>unsubscribe\<close> is
  \<open>() => { ...; (async () => await (await unsubscribePromise)())(); ... }\<close>:
  each call starts an async function that waits for the promise and then calls the function the
  promise gave. The call itself returns at once and cannot throw, whatever the async function does.
  The state counts the async functions that wait and the calls of the backend's release function.
\<close>

datatype release_fn = NoBackendRelease | BackendRelease

datatype promise = Pending | Fulfilled release_fn | Rejected error

record teardown =
  unsubscribePromise :: promise
  awaiting :: nat
  release_calls :: nat

definition store_created :: "bool \<Rightarrow> teardown" where
  "store_created disable =
     \<lparr>unsubscribePromise = (if disable then Fulfilled NoBackendRelease else Pending),
      awaiting = 0, release_calls = 0\<rparr>"

definition call_release :: "release_fn \<Rightarrow> nat \<Rightarrow> nat \<Rightarrow> nat" where
  "call_release f k n = (case f of BackendRelease \<Rightarrow> n + k | NoBackendRelease \<Rightarrow> n)"

text \<open>One call of \<open>unsubscribe\<close>: the new state and the error thrown to the caller, if any.\<close>

definition unsubscribe :: "teardown \<Rightarrow> teardown \<times> error option" where
  "unsubscribe t =
     (case unsubscribePromise t of
        Pending \<Rightarrow> (t\<lparr>awaiting := Suc (awaiting t)\<rparr>, None)
      | Fulfilled f \<Rightarrow> (t\<lparr>release_calls := call_release f 1 (release_calls t)\<rparr>, None)
      | Rejected err \<Rightarrow> (t, None))"

text \<open>The promise settles once; the async functions that wait resume, each calling the function.\<close>

definition settle :: "error + release_fn \<Rightarrow> teardown \<Rightarrow> teardown" where
  "settle outcome t =
     (case unsubscribePromise t of
        Pending \<Rightarrow>
          (case outcome of
             Inl err \<Rightarrow> t\<lparr>unsubscribePromise := Rejected err, awaiting := 0\<rparr>
           | Inr f \<Rightarrow>
               t\<lparr>unsubscribePromise := Fulfilled f, awaiting := 0,
                 release_calls := call_release f (awaiting t) (release_calls t)\<rparr>)
      | Fulfilled f \<Rightarrow> t
      | Rejected err \<Rightarrow> t)"

datatype occurrence = Unsubscribe | Acquired | AcquisitionFailed error

fun occur :: "occurrence \<Rightarrow> teardown \<Rightarrow> teardown" where
  "occur Unsubscribe t = fst (unsubscribe t)"
| "occur Acquired t = settle (Inr BackendRelease) t"
| "occur (AcquisitionFailed err) t = settle (Inl err) t"

fun teardown_run :: "occurrence list \<Rightarrow> teardown \<Rightarrow> teardown" where
  "teardown_run [] t = t"
| "teardown_run (oc # rest) t = teardown_run rest (occur oc t)"

text \<open>
  The invariant of the teardown state after \<open>n\<close> calls of \<open>unsubscribe\<close>, and the number
  of such calls in a list of occurrences.
\<close>

definition teardown_inv :: "nat \<Rightarrow> teardown \<Rightarrow> bool" where
  "teardown_inv n t =
     (case unsubscribePromise t of
        Pending \<Rightarrow> awaiting t = n \<and> release_calls t = 0
      | Fulfilled f \<Rightarrow> release_calls t = call_release f n 0
      | Rejected err \<Rightarrow> release_calls t = 0)"

definition unsubscribes :: "occurrence list \<Rightarrow> nat" where
  "unsubscribes ocs = length (filter (\<lambda>oc. oc = Unsubscribe) ocs)"

section \<open>Concrete inputs\<close>

text \<open>
  A backend, entities with one number as their body, the comparator \<open>byFieldAsc('n')\<close>
  (\<open>(a, b) => a.n - b.n\<close>) and the predicates \<open>x => x.n > 0\<close> and \<open>(x, i) => i > 0\<close>.
\<close>

definition demo_collection :: "int collection" where
  "demo_collection =
     \<lparr>collectionIdOrName = ''posts'',
      getOne = (\<lambda>i qp. if i = ''gone'' then Inl (ClientResponseError 404)
                        else Inr \<lparr>id_str = i, body = 7\<rparr>),
      getFullList = (\<lambda>qp. Inr []),
      getList = (\<lambda>pg per qp.
        Inr \<lparr>page = pg, perPage = per, totalItems = Fin 45, totalPages = Fin 3,
             items = [\<lparr>id_str = ''p'', body = 0\<rparr>]\<rparr>)\<rparr>"

definition demo_answering :: "int \<Rightarrow> int collection" where
  "demo_answering n =
     \<lparr>collectionIdOrName = ''posts'',
      getOne = (\<lambda>i qp. Inr \<lparr>id_str = i, body = n\<rparr>),
      getFullList = (\<lambda>qp. Inr []),
      getList = (\<lambda>pg per qp.
        Inr \<lparr>page = pg, perPage = per, totalItems = Fin 0, totalPages = Fin 0, items = []\<rparr>)\<rparr>"

definition ent :: "string \<Rightarrow> int \<Rightarrow> int entity" where
  "ent i n = \<lparr>id_str = i, body = n\<rparr>"

definition event :: "string \<Rightarrow> int entity \<Rightarrow> int RecordSubscription" where
  "event a r = \<lparr>action = a, recordT = r\<rparr>"

definition byFieldAsc :: "int entity \<Rightarrow> int entity \<Rightarrow> int" where
  "byFieldAsc a b = body a - body b"

definition positive :: "unit \<Rightarrow> int entity \<Rightarrow> nat \<Rightarrow> int entity list \<Rightarrow> bool" where
  "positive this x i arr = (0 < body x)"

definition not_first :: "unit \<Rightarrow> int entity \<Rightarrow> nat \<Rightarrow> int entity list \<Rightarrow> bool" where
  "not_first this x i arr = (0 < i)"

definition first_two :: "unit \<Rightarrow> int entity \<Rightarrow> nat \<Rightarrow> int entity list \<Rightarrow> bool" where
  "first_two this x i arr = (i < 2)"

definition demo_options ::
  "(int entity \<Rightarrow> int entity \<Rightarrow> int) option
     \<Rightarrow> (unit \<Rightarrow> int entity \<Rightarrow> nat \<Rightarrow> int entity list \<Rightarrow> bool) option
     \<Rightarrow> string option \<Rightarrow> (int, unit, 'u) CollectionStoreOptions" where
  "demo_options cmp f e =
     \<lparr>disableRealtime = False, initial = None,
      queryParams = (case e of None \<Rightarrow> None | Some s \<Rightarrow> Some (expand_only e)),
      sortFunction = cmp, filterFunction = f, filterFunctionThisArg = ()\<rparr>"

definition demo_record_options :: "string option \<Rightarrow> int entity RecordStoreOptions" where
  "demo_record_options e =
     \<lparr>disableRealtime = False, initial = None,
      queryParams = (case e of None \<Rightarrow> None | Some s \<Rightarrow> Some (expand_only e))\<rparr>"

definition demo_page :: "int ListResult" where
  "demo_page = \<lparr>page = Fin 1, perPage = Fin 20, totalItems = Fin 45, totalPages = Fin 3,
                 items = [ent ''a'' 1, ent ''zz'' 5]\<rparr>"

section \<open>Sorting without a comparator\<close>

lemma str_less_irrefl: "\<not> str_less s s"
  by (induction s) auto

lemma SortCompare_default: "SortCompare None x y = 0"
  by (simp add: SortCompare_def toString_entity_def str_less_irrefl)

lemma sort_insert_default: "sort_insert None x ys = x # ys"
  by (cases ys) (simp_all add: SortCompare_default)

lemma js_sort_default: "js_sort None xs = xs"
  by (induction xs) (simp_all add: sort_insert_default)

section \<open>The expansion resolver\<close>

text \<open>
  C8. Given an entity and an expand directive, the resolver returns the entity as it is
  and issues no backend call when the directive is absent or the empty string; when the
  directive is present it issues exactly one call, a point read by the entity's id with
  parameters holding that directive, and its result is the result of that read (the
  read's entity, or the read's error), not the entity it was given.
\<close>

theorem realtimeStoreExpand_contract:
  "((e = None \<or> e = Some []) \<longrightarrow> realtimeStoreExpand col r e = (Inr r, []))
   \<and> (\<forall>s. e = Some s \<and> s \<noteq> [] \<longrightarrow>
         realtimeStoreExpand col r e =
           (getOne col (id_str r) (Some \<lparr>expand = Some s, sort_param = None, filter_param = None\<rparr>),
            [GetOne (id_str r) (Some \<lparr>expand = Some s, sort_param = None, filter_param = None\<rparr>)]))"
  by (auto simp: realtimeStoreExpand_def truthy_str_def expand_only_def)

theorem realtimeStoreExpand_contract_witness:
  "realtimeStoreExpand demo_collection (ent ''a1'' 3) None = (Inr (ent ''a1'' 3), [])
   \<and> realtimeStoreExpand demo_collection (ent ''a1'' 3) (Some '''') = (Inr (ent ''a1'' 3), [])
   \<and> realtimeStoreExpand demo_collection (ent ''a1'' 3) (Some ''author'') =
       (Inr (ent ''a1'' 7),
        [GetOne ''a1'' (Some \<lparr>expand = Some ''author'', sort_param = None, filter_param = None\<rparr>)])"
  using realtimeStoreExpand_contract [of None demo_collection "ent ''a1'' 3"]
    realtimeStoreExpand_contract [of "Some ''''" demo_collection "ent ''a1'' 3"]
    realtimeStoreExpand_contract [of "Some ''author''" demo_collection "ent ''a1'' 3"]
  by (simp add: demo_collection_def ent_def)

section \<open>Reconciliation of one event\<close>

text \<open>
  C1. The reconciliation of one event against the current sequence, where \<open>r\<close> is the
  entity the expansion resolver gives for the event's entity (the callback assigns it to
  \<open>subscription.record\<close> before it compares ids, and it is the event's entity itself when
  no expansion is asked for): a create event gives the sequence with \<open>r\<close> appended at
  its end; an update event gives a sequence of the same length in which every position
  whose element has the id of \<open>r\<close> holds \<open>r\<close> and every other position holds what it
  held; a delete event gives the sequence without the elements that have the id of the
  event's entity, the others in their order; any other action gives the sequence as it is.
\<close>

theorem collectionStoreCallback_cases:
  "(action s = ''create'' \<and> realtimeStoreExpand col (recordT s) (expand_of qp) = (Inr r, cs) \<longrightarrow>
      collectionStoreCallback list s col qp = (Inr (list @ [r]), cs))
   \<and> (action s = ''update'' \<and> realtimeStoreExpand col (recordT s) (expand_of qp) = (Inr r, cs) \<longrightarrow>
      (\<exists>out. collectionStoreCallback list s col qp = (Inr out, cs)
         \<and> length out = length list
         \<and> (\<forall>i < length list.
               out ! i = (if id_str (list ! i) = id_str r then r else list ! i))))
   \<and> (action s = ''delete'' \<longrightarrow>
      collectionStoreCallback list s col qp =
        (Inr (filter (\<lambda>item. id_str item \<noteq> id_str (recordT s)) list), []))
   \<and> (action s \<noteq> ''create'' \<and> action s \<noteq> ''update'' \<and> action s \<noteq> ''delete'' \<longrightarrow>
      collectionStoreCallback list s col qp = (Inr list, []))
   \<and> (\<not> truthy_str (expand_of qp) \<longrightarrow>
      realtimeStoreExpand col (recordT s) (expand_of qp) = (Inr (recordT s), []))"
  by (auto simp: collectionStoreCallback_def realtimeStoreExpand_def)

theorem collectionStoreCallback_cases_witness:
  "collectionStoreCallback [ent ''a'' 1, ent ''b'' 2] (event ''create'' (ent ''c'' 3)) demo_collection None
     = (Inr [ent ''a'' 1, ent ''b'' 2, ent ''c'' 3], [])
   \<and> collectionStoreCallback [ent ''a'' 1, ent ''b'' 2, ent ''c'' 3] (event ''update'' (ent ''b'' 9))
        demo_collection None
     = (Inr [ent ''a'' 1, ent ''b'' 9, ent ''c'' 3], [])
   \<and> collectionStoreCallback [ent ''a'' 1, ent ''b'' 2, ent ''c'' 3] (event ''delete'' (ent ''b'' 2))
        demo_collection None
     = (Inr [ent ''a'' 1, ent ''c'' 3], [])
   \<and> collectionStoreCallback [ent ''a'' 1, ent ''b'' 2] (event ''touch'' (ent ''b'' 9)) demo_collection None
     = (Inr [ent ''a'' 1, ent ''b'' 2], [])"
proof -
  let ?l = "[ent ''a'' 1, ent ''b'' 2, ent ''c'' 3]"
  have r: "\<And>x. realtimeStoreExpand demo_collection x (expand_of None) = (Inr x, [])"
    by (simp add: realtimeStoreExpand_def expand_of_def truthy_str_def)
  have c: "collectionStoreCallback [ent ''a'' 1, ent ''b'' 2] (event ''create'' (ent ''c'' 3))
             demo_collection None = (Inr ([ent ''a'' 1, ent ''b'' 2] @ [ent ''c'' 3]), [])"
    using collectionStoreCallback_cases
      [of "event ''create'' (ent ''c'' 3)" demo_collection None "ent ''c'' 3" "[]" "[ent ''a'' 1, ent ''b'' 2]"] r
    by (simp add: event_def)
  obtain out where o: "collectionStoreCallback ?l (event ''update'' (ent ''b'' 9)) demo_collection None
        = (Inr out, [])" "length out = length ?l"
      "\<forall>i < length ?l. out ! i = (if id_str (?l ! i) = id_str (ent ''b'' 9) then ent ''b'' 9 else ?l ! i)"
    using collectionStoreCallback_cases
      [of "event ''update'' (ent ''b'' 9)" demo_collection None "ent ''b'' 9" "[]" ?l] r
    by (auto simp: event_def)
  have "out = [ent ''a'' 1, ent ''b'' 9, ent ''c'' 3]"
    using o(2,3) by (auto simp: list_eq_iff_nth_eq less_Suc_eq ent_def)
  with o(1) have u: "collectionStoreCallback ?l (event ''update'' (ent ''b'' 9)) demo_collection None
     = (Inr [ent ''a'' 1, ent ''b'' 9, ent ''c'' 3], [])" by simp
  have d: "collectionStoreCallback ?l (event ''delete'' (ent ''b'' 2)) demo_collection None
     = (Inr [ent ''a'' 1, ent ''c'' 3], [])"
    using collectionStoreCallback_cases
      [of "event ''delete'' (ent ''b'' 2)" demo_collection None "ent ''b'' 2" "[]" ?l]
    by (simp add: event_def ent_def)
  have t: "collectionStoreCallback [ent ''a'' 1, ent ''b'' 2] (event ''touch'' (ent ''b'' 9)) demo_collection None
     = (Inr [ent ''a'' 1, ent ''b'' 2], [])"
    using collectionStoreCallback_cases
      [of "event ''touch'' (ent ''b'' 9)" demo_collection None "ent ''b'' 9" "[]" "[ent ''a'' 1, ent ''b'' 2]"]
    by (simp add: event_def)
  from c u d t show ?thesis by simp
qed

text \<open>
  C9. The reconciliation of one event by the record store: an update or a create event
  makes the expansion-resolved entity of the event the new state; a delete event makes
  the state absent; any other action leaves the state as it is. The same holds of the
  value the handler assigns to \<open>result\<close> and publishes.
\<close>

theorem recordStore_event:
  "((action s = ''update'' \<or> action s = ''create'')
      \<and> realtimeStoreExpand col (recordT s) (expand_of (queryParams options)) = (Inr r, cs) \<longrightarrow>
      recordStoreCallback item s col (queryParams options) = (Inr (Some r), cs)
      \<and> recordStore_handler options col item s = (Some r, None, cs))
   \<and> (action s = ''delete'' \<longrightarrow>
      recordStoreCallback item s col (queryParams options) = (Inr None, [])
      \<and> recordStore_handler options col item s = (None, None, []))
   \<and> (action s \<noteq> ''update'' \<and> action s \<noteq> ''create'' \<and> action s \<noteq> ''delete'' \<longrightarrow>
      recordStoreCallback item s col (queryParams options) = (Inr item, [])
      \<and> recordStore_handler options col item s = (item, None, []))"
  by (auto simp: recordStoreCallback_def recordStore_handler_def)

theorem recordStore_event_witness:
  "recordStore_handler (demo_record_options (Some ''author'')) demo_collection (Some (ent ''a'' 1))
       (event ''update'' (ent ''a'' 2))
     = (Some (ent ''a'' 7), None, [GetOne ''a'' (Some (expand_only (Some ''author'')))])
   \<and> recordStore_handler (demo_record_options None) demo_collection None (event ''create'' (ent ''a'' 2))
     = (Some (ent ''a'' 2), None, [])
   \<and> recordStore_handler (demo_record_options None) demo_collection (Some (ent ''a'' 1))
       (event ''delete'' (ent ''a'' 1))
     = (None, None, [])
   \<and> recordStore_handler (demo_record_options None) demo_collection (Some (ent ''a'' 1))
       (event ''touch'' (ent ''a'' 5))
     = (Some (ent ''a'' 1), None, [])"
  using recordStore_event [of "event ''update'' (ent ''a'' 2)" demo_collection
      "demo_record_options (Some ''author'')" "ent ''a'' 7"
      "[GetOne ''a'' (Some (expand_only (Some ''author'')))]" "Some (ent ''a'' 1)"]
    recordStore_event [of "event ''create'' (ent ''a'' 2)" demo_collection
      "demo_record_options None" "ent ''a'' 2" "[]" None]
    recordStore_event [of "event ''delete'' (ent ''a'' 1)" demo_collection
      "demo_record_options None" "ent ''a'' 1" "[]" "Some (ent ''a'' 1)"]
    recordStore_event [of "event ''touch'' (ent ''a'' 5)" demo_collection
      "demo_record_options None" "ent ''a'' 1" "[]" "Some (ent ''a'' 1)"]
  by (simp add: event_def ent_def demo_record_options_def demo_collection_def
      realtimeStoreExpand_def expand_of_def truthy_str_def expand_only_def)

text \<open>
  C7. Whatever event the paginated store handles, the page window it publishes has the
  \<open>page\<close>, \<open>perPage\<close>, \<open>totalItems\<close> and \<open>totalPages\<close> it had before: only \<open>items\<close> can change.
\<close>

theorem paginated_event_keeps_metadata:
  "page (fst (paginatedCollectionStore_handler options col result data)) = page result
   \<and> perPage (fst (paginatedCollectionStore_handler options col result data)) = perPage result
   \<and> totalItems (fst (paginatedCollectionStore_handler options col result data)) = totalItems result
   \<and> totalPages (fst (paginatedCollectionStore_handler options col result data)) = totalPages result"
  by (simp add: paginatedCollectionStore_handler_def split: prod.splits sum.splits)

section \<open>Page navigation\<close>

lemma bit_count_bounds: "0 < n \<Longrightarrow> 2 ^ (bit_count n - 1) \<le> n \<and> n < 2 ^ bit_count n"
proof (induction n rule: bit_count.induct)
  case (1 n)
  show ?case
  proof (cases "n div 2 = 0")
    case True
    with "1.prems" have "n = 1" by (simp add: div_eq_0_iff) 
    then show ?thesis by (simp add: bit_count.simps)
  next
    case False
    with "1.IH" "1.prems"
    have ih: "2 ^ (bit_count (n div 2) - 1) \<le> n div 2" "n div 2 < 2 ^ bit_count (n div 2)"
      by simp_all
    from False have pos: "0 < bit_count (n div 2)" by (simp add: bit_count.simps)
    have bc: "bit_count n = Suc (bit_count (n div 2))"
      using "1.prems" by (simp add: bit_count.simps)
    from pos have "(2::nat) ^ bit_count (n div 2) = 2 * 2 ^ (bit_count (n div 2) - 1)"
      by (cases "bit_count (n div 2)") simp_all
    with ih have "2 ^ bit_count (n div 2) \<le> n" by linarith
    moreover from ih have "n < 2 * 2 ^ bit_count (n div 2)" by linarith
    ultimately show ?thesis by (simp add: bc)
  qed
qed

lemma bit_count_pos: "0 < n \<Longrightarrow> 0 < bit_count n"
  by (simp add: bit_count.simps)

lemma pow2_neg: "0 \<le> d \<Longrightarrow> pow2 (- d) = 1 / 2 ^ nat d"
  by (cases "d = 0") (simp_all add: pow2_def)

lemma pow2_nat: "pow2 (int n) = 2 ^ n"
  by (simp add: pow2_def)

lemma exponent_bounds:
  assumes "0 < x"
  shows "pow2 (exponent x) \<le> x \<and> x < pow2 (exponent x + 1)"
proof (cases "1 \<le> x")
  case True
  define n where "n = nat \<lfloor>x\<rfloor>"
  from True have npos: "0 < n" by (simp add: n_def)
  from True have fl: "real n \<le> x" "x < real n + 1"
    by (simp_all add: n_def)
  from bit_count_bounds [OF npos] bit_count_pos [OF npos]
  have lo: "2 ^ (bit_count n - 1) \<le> n" and hi: "Suc n \<le> 2 ^ bit_count n"
    by simp_all
  from lo have "(2::real) ^ (bit_count n - 1) \<le> real n"
    by (metis of_nat_le_iff of_nat_numeral of_nat_power)
  with fl have l: "(2::real) ^ (bit_count n - 1) \<le> x" by linarith
  from hi have "real (Suc n) \<le> 2 ^ bit_count n"
    by (metis of_nat_le_iff of_nat_numeral of_nat_power)
  with fl have h: "x < 2 ^ bit_count n" by simp
  have e: "exponent x = int (bit_count n - 1)"
    using True bit_count_pos [OF npos] by (simp add: exponent_def n_def)
  have e1: "exponent x + 1 = int (bit_count n)"
    using bit_count_pos [OF npos] by (simp add: e)
  have "pow2 (exponent x) = 2 ^ (bit_count n - 1)"
    by (simp only: e pow2_nat)
  moreover have "pow2 (exponent x + 1) = 2 ^ bit_count n"
    unfolding e1 by (rule pow2_nat)
  ultimately show ?thesis using l h by simp
next
  case False
  define c where "c = \<lceil>1 / x\<rceil>"
  define n where "n = nat (c - 1)"
  define k where "k = bit_count n"
  from False assms have big: "1 < 1 / x" by simp
  then have c2: "2 \<le> c" unfolding c_def by linarith
  then have npos: "0 < n" by (simp add: n_def)
  have ceil: "of_int c - 1 < 1 / x" "1 / x \<le> of_int c"
    unfolding c_def by linarith+
  from c2 have rn: "real n = of_int c - 1" by (simp add: n_def)
  from bit_count_bounds [OF npos] bit_count_pos [OF npos]
  have lo: "2 ^ (k - 1) \<le> n" and hi: "Suc n \<le> 2 ^ k" and kpos: "0 < k"
    by (simp_all add: k_def)
  from lo have "(2::real) ^ (k - 1) \<le> real n"
    by (metis of_nat_le_iff of_nat_numeral of_nat_power)
  with ceil rn have up: "(2::real) ^ (k - 1) < 1 / x" by linarith
  from hi have "real (Suc n) \<le> 2 ^ k"
    by (metis of_nat_le_iff of_nat_numeral of_nat_power)
  then have "real n + 1 \<le> 2 ^ k" by simp
  with ceil rn have dn: "1 / x \<le> (2::real) ^ k" by linarith
  have e: "exponent x = - int k"
    using False by (simp add: exponent_def k_def n_def c_def)
  have p1: "pow2 (exponent x) = 1 / 2 ^ k"
    using pow2_neg [of "int k"] by (simp add: e)
  have p2: "pow2 (exponent x + 1) = 1 / 2 ^ (k - 1)"
    using pow2_neg [of "int k - 1"] kpos by (simp add: e nat_diff_distrib')
  from dn assms have a: "1 / 2 ^ k \<le> x"
    by (simp add: field_simps)
  from up assms have b: "x < 1 / 2 ^ (k - 1)"
    by (simp add: field_simps)
  from a b show ?thesis by (simp only: p1 p2)
qed

lemma round_even_int: "round_even (of_int m) = m"
  by (simp add: round_even_def)

lemma fl_whole:
  assumes "\<bar>k\<bar> < 2 ^ 53"
  shows "fl (of_int k) = Fin (of_int k)"
proof (cases "k = 0")
  case True
  then show ?thesis by (simp add: fl_def)
next
  case False
  define n where "n = nat \<bar>k\<bar>"
  define e where "e = bit_count n - 1"
  from False have npos: "0 < n" by (simp add: n_def)
  from bit_count_bounds [OF npos] have lo: "2 ^ e \<le> n" and hi: "n < 2 ^ bit_count n"
    by (simp_all add: e_def)
  from assms have "n < 2 ^ 53" by (simp add: n_def nat_less_iff)
  with lo have "(2::nat) ^ e < 2 ^ 53" by linarith
  then have "e < 53" by (rule power_less_imp_less_exp [rotated]) simp
  then have e52: "e \<le> 52" by simp
  have a: "\<bar>of_int k :: real\<bar> = of_nat n" by (simp add: n_def)
  from npos have one: "(1::real) \<le> of_nat n" by simp
  have ex: "exponent (of_nat n) = int e"
    using npos one bit_count_pos [OF npos] by (simp add: exponent_def e_def)
  have step1: "fl (of_int k) =
      (let q = pow2 (max (exponent (of_nat n)) (- 1022) - 52);
           y = of_int (round_even (of_nat n / q)) * q
       in if pow2 1024 \<le> y then (if 0 < (of_int k :: real) then PosInf else NegInf)
          else Fin (if 0 < (of_int k :: real) then y else - y))"
    using False by (simp only: fl_def a of_int_eq_0_iff if_False)
  have q: "pow2 (max (exponent (of_nat n)) (- 1022) - 52) = 1 / 2 ^ (52 - e)"
    using e52 pow2_neg [of "52 - int e"] by (simp add: ex nat_diff_distrib')
  have scaled: "(of_nat n :: real) / (1 / 2 ^ (52 - e)) = of_int (int n * 2 ^ (52 - e))"
    by simp
  have y: "of_int (round_even ((of_nat n :: real) / (1 / 2 ^ (52 - e)))) * (1 / 2 ^ (52 - e))
             = (of_nat n :: real)"
    unfolding scaled round_even_int by simp
  from \<open>n < 2 ^ 53\<close> have "(of_nat n :: real) < 2 ^ 53"
    by (metis of_nat_less_iff of_nat_numeral of_nat_power)
  also have "(2::real) ^ 53 < 2 ^ 1024" by simp
  finally have small: "\<not> pow2 1024 \<le> (of_nat n :: real)" by (simp add: pow2_def)
  have sgn: "(if 0 < (of_int k :: real) then of_nat n else - of_nat n) = (of_int k :: real)"
    by (simp add: n_def)
  show ?thesis
    unfolding step1 Let_def q y by (simp only: small sgn if_False)
qed

lemma js_add_whole:
  assumes "\<bar>k\<bar> < 2 ^ 53 - 1"
  shows "js_add (Fin (of_int k)) (Fin 1) = Fin (of_int (k + 1))"
    and "js_sub (Fin (of_int k)) (Fin 1) = Fin (of_int (k - 1))"
proof -
  from assms have "\<bar>k + 1\<bar> < 2 ^ 53" "\<bar>k - 1\<bar> < 2 ^ 53" by simp_all
  from fl_whole [OF this(1)] fl_whole [OF this(2)]
  show "js_add (Fin (of_int k)) (Fin 1) = Fin (of_int (k + 1))"
    and "js_sub (Fin (of_int k)) (Fin 1) = Fin (of_int (k - 1))"
    by (simp_all add: js_sub_def)
qed

lemmas number_eval = fl_def exponent_def pow2_def round_even_def bit_count.simps Let_def js_sub_def

text \<open>
  C6, as the code has it. In the browser, \<open>setPage n\<close> is honoured exactly when \<open>n > 0\<close>
  and \<open>n <= totalPages\<close> hold of the numbers, which for a whole number \<open>n\<close> and a whole
  \<open>totalPages\<close> is \<open>1 \<le> n \<le> totalPages\<close>; a fraction between 0 and 1 passes the guard
  too, and NaN never does. When honoured it issues exactly one page read, with \<open>n\<close>, the
  current \<open>perPage\<close> and the \<open>queryParams\<close>; when the read resolves, its result is the
  whole new page window (items and metadata, nothing of the old items is kept), and
  when it rejects the window stays and the error is the outcome. For every other \<open>n\<close>
  (0 and \<open>totalPages + 1\<close> among them) the window is unchanged and no read is issued.
  \<open>next\<close> and \<open>prev\<close> are \<open>setPage\<close> of the floating-point sum and difference of the
  current page and one, which are the exact whole numbers while the page is a whole
  number below \<open>2^53 - 1\<close> in magnitude. On the server \<open>setPage\<close> does nothing, and there the
  window is the empty one the store was built with, whose \<open>totalPages\<close> is 0, so that no
  \<open>n\<close> passes the guard.
\<close>

theorem setPage_guard:
  "(js_lt (Fin 0) n \<and> js_le n (totalPages (result :: 'p ListResult)) \<longrightarrow>
      setPage False options col result n =
        (case getList col n (perPage result) (queryParams options) of
           Inr r \<Rightarrow> (r, None, [GetList n (perPage result) (queryParams options)])
         | Inl err \<Rightarrow> (result, Some err, [GetList n (perPage result) (queryParams options)])))
   \<and> (\<not> (js_lt (Fin 0) n \<and> js_le n (totalPages result)) \<longrightarrow>
        setPage False options col result n = (result, None, []))
   \<and> (\<forall>k t. n = Fin (of_int k) \<and> totalPages result = Fin (of_int t) \<longrightarrow>
        (js_lt (Fin 0) n \<and> js_le n (totalPages result)) = (1 \<le> k \<and> k \<le> t))
   \<and> next_page ssr options col result
        = setPage ssr options col result (js_add (page result) (Fin 1))
   \<and> prev_page ssr options col result
        = setPage ssr options col result (js_sub (page result) (Fin 1))
   \<and> (\<forall>k. \<bar>k\<bar> < 2 ^ 53 - 1 \<and> page result = Fin (of_int k) \<longrightarrow>
        js_add (page result) (Fin 1) = Fin (of_int (k + 1))
        \<and> js_sub (page result) (Fin 1) = Fin (of_int (k - 1)))
   \<and> setPage True options col result n = (result, None, [])
   \<and> \<not> (js_lt (Fin 0) n
          \<and> js_le n (totalPages (paginatedCollectionStore_init pg per :: 'p ListResult)))"
proof -
  have whole: "\<forall>k t. n = Fin (of_int k) \<and> totalPages result = Fin (of_int t) \<longrightarrow>
        (js_lt (Fin 0) n \<and> js_le n (totalPages result)) = (1 \<le> k \<and> k \<le> t)"
    by auto
  have steps: "\<forall>k. \<bar>k\<bar> < 2 ^ 53 - 1 \<and> page result = Fin (of_int k) \<longrightarrow>
        js_add (page result) (Fin 1) = Fin (of_int (k + 1))
        \<and> js_sub (page result) (Fin 1) = Fin (of_int (k - 1))"
    using js_add_whole by auto
  have init: "\<not> (js_lt (Fin 0) n
          \<and> js_le n (totalPages (paginatedCollectionStore_init pg per :: 'p ListResult)))"
    by (cases n) (auto simp: paginatedCollectionStore_init_def)
  have guard: "(js_lt (Fin 0) n \<and> js_le n (totalPages result) \<longrightarrow>
      setPage False options col result n =
        (case getList col n (perPage result) (queryParams options) of
           Inr r \<Rightarrow> (r, None, [GetList n (perPage result) (queryParams options)])
         | Inl err \<Rightarrow> (result, Some err, [GetList n (perPage result) (queryParams options)])))
   \<and> (\<not> (js_lt (Fin 0) n \<and> js_le n (totalPages result)) \<longrightarrow>
        setPage False options col result n = (result, None, []))"
    by (auto simp: setPage_def split: sum.splits)
  from guard whole steps init show ?thesis
    by (simp add: next_page_def prev_page_def setPage_def)
qed

theorem setPage_guard_witness:
  "setPage False (demo_options None None None) demo_collection demo_page (Fin 2)
     = (\<lparr>page = Fin 2, perPage = Fin 20, totalItems = Fin 45, totalPages = Fin 3,
         items = [ent ''p'' 0]\<rparr>,
        None, [GetList (Fin 2) (Fin 20) None])
   \<and> setPage False (demo_options None None None) demo_collection demo_page (Fin 0)
     = (demo_page, None, [])
   \<and> setPage False (demo_options None None None) demo_collection demo_page (Fin 4)
     = (demo_page, None, [])
   \<and> setPage False (demo_options None None None) demo_collection demo_page NaN
     = (demo_page, None, [])
   \<and> next_page False (demo_options None None None) demo_collection demo_page
     = (\<lparr>page = Fin 2, perPage = Fin 20, totalItems = Fin 45, totalPages = Fin 3,
         items = [ent ''p'' 0]\<rparr>,
        None, [GetList (Fin 2) (Fin 20) None])
   \<and> prev_page False (demo_options None None None) demo_collection demo_page
     = (demo_page, None, [])"
proof -
  let ?o = "demo_options None None None :: (int, unit, int ListResult) CollectionStoreOptions"
  let ?r2 = "\<lparr>page = Fin 2, perPage = Fin 20, totalItems = Fin 45, totalPages = Fin 3,
              items = [ent ''p'' 0]\<rparr>"
  have g: "getList demo_collection (Fin 2) (perPage demo_page) (queryParams ?o) = Inr ?r2"
    by (simp add: demo_collection_def demo_page_def ent_def)
  have q: "queryParams ?o = None" "perPage demo_page = Fin 20" "page demo_page = Fin (of_int 1)"
      "totalPages demo_page = Fin 3"
    by (simp_all add: demo_options_def demo_page_def)
  have two: "setPage False ?o demo_collection demo_page (Fin 2)
               = (?r2, None, [GetList (Fin 2) (Fin 20) None])"
    using setPage_guard [where n = "Fin 2" and result = demo_page and options = ?o
        and col = demo_collection and ssr = False and pg = "Fin 1" and per = "Fin 20"] g q
    by simp
  have zero: "setPage False ?o demo_collection demo_page (Fin 0) = (demo_page, None, [])"
    using setPage_guard [where n = "Fin 0" and result = demo_page and options = ?o
        and col = demo_collection and ssr = False and pg = "Fin 1" and per = "Fin 20"] by simp
  have four: "setPage False ?o demo_collection demo_page (Fin 4) = (demo_page, None, [])"
    using setPage_guard [where n = "Fin 4" and result = demo_page and options = ?o
        and col = demo_collection and ssr = False and pg = "Fin 1" and per = "Fin 20"] q by simp
  have nan: "setPage False ?o demo_collection demo_page NaN = (demo_page, None, [])"
    using setPage_guard [where n = NaN and result = demo_page and options = ?o
        and col = demo_collection and ssr = False and pg = "Fin 1" and per = "Fin 20"] by simp
  note inst = setPage_guard [where n = "Fin 2" and result = demo_page and options = ?o
        and col = demo_collection and ssr = False and pg = "Fin 1" and per = "Fin 20"]
  note one = inst [THEN conjunct2, THEN conjunct2, THEN conjunct2, THEN conjunct2,
      THEN conjunct2, THEN conjunct1, rule_format, of 1]
  from one q(3) have sums: "js_add (page demo_page) (Fin 1) = Fin 2"
      "js_sub (page demo_page) (Fin 1) = Fin 0"
    by simp_all
  from inst sums two have nx: "next_page False ?o demo_collection demo_page
      = (?r2, None, [GetList (Fin 2) (Fin 20) None])"
    by simp
  from inst sums zero have pv: "prev_page False ?o demo_collection demo_page = (demo_page, None, [])"
    by simp
  from two zero four nan nx pv show ?thesis by simp
qed

text \<open>
  \<open>setPage(0.5)\<close> with three pages fetches page 0.5, and \<open>next()\<close> on page \<open>2^53\<close> of
  \<open>2^53\<close> pages fetches page \<open>2^53\<close> again, since \<open>2^53 + 1\<close> rounds to \<open>2^53\<close>.
\<close>

theorem setPage_fraction_fetches:
  "setPage False (demo_options None None None) demo_collection demo_page (Fin (1 / 2))
     = (\<lparr>page = Fin (1 / 2), perPage = Fin 20, totalItems = Fin 45, totalPages = Fin 3,
         items = [ent ''p'' 0]\<rparr>,
        None, [GetList (Fin (1 / 2)) (Fin 20) None])
   \<and> snd (snd (next_page False (demo_options None None None) demo_collection
       (demo_page\<lparr>page := Fin 9007199254740992, totalPages := Fin 9007199254740992\<rparr>)))
     = [GetList (Fin 9007199254740992) (Fin 20) None]"
  by (simp add: setPage_def next_page_def demo_options_def demo_collection_def demo_page_def
      ent_def number_eval)

section \<open>Sort, then filter\<close>

lemma filter_from_subseq: "subseq (filter_from f arr i xs) xs"
  by (induction xs arbitrary: i) auto

lemma js_filter_subseq: "subseq (js_filter f xs) xs"
  by (simp add: js_filter_def filter_from_subseq)

lemma filter_from_value_only: "filter_from (\<lambda>x i arr. p x) arr i xs = filter p xs"
  by (induction xs arbitrary: i) auto

lemma js_filter_value_only: "js_filter (\<lambda>x i arr. p x) xs = filter p xs"
  by (simp add: js_filter_def filter_from_value_only)

lemma demo_no_expand:
  "realtimeStoreExpand demo_collection x (expand_of (queryParams (demo_options c f None))) = (Inr x, [])"
  by (simp add: realtimeStoreExpand_def expand_of_def truthy_str_def demo_options_def)

lemma demo_create:
  "collectionStoreCallback xs (event ''create'' x) demo_collection (queryParams (demo_options c f None))
     = (Inr (xs @ [x]), [])"
  "paginatedCollectionStoreCallback pr (event ''create'' x) demo_collection
       (queryParams (demo_options c f None))
     = (Inr (items pr @ [x]), [])"
  by (simp_all add: collectionStoreCallback_def paginatedCollectionStoreCallback_def
      demo_no_expand event_def)

text \<open>
  C3. When both a \<open>sortFunction\<close> and a \<open>filterFunction\<close> are given, the value a collection
  store publishes after an event, and the \<open>items\<close> a paginated store publishes, is the
  filter applied to the sorted post-mutation sequence: the sequence the callback returns
  is sorted with \<open>sortFunction\<close> first, and \<open>filterFunction\<close> sees the sorted array, its
  values and their indices there. With the ascending comparator on \<open>n\<close> and the filter
  \<open>n > 0\<close>, items with \<open>n\<close> values 3, -1, 2 are published as 2, 3. A filter that keeps the
  first two indices tells the two orders apart: on 3, 1, 2 the stores publish 1, 2, where
  filtering first and sorting second would give 1, 3.
\<close>

theorem sort_before_filter:
  "(sortFunction options = Some cmp \<and> filterFunction options = Some f
      \<and> collectionStoreCallback result data col (queryParams options) = (Inr its, cs) \<longrightarrow>
      fst (collectionStore_handler options col result data)
        = js_filter (f (filterFunctionThisArg options)) (js_sort (Some cmp) its))
   \<and> (sortFunction poptions = Some cmp \<and> filterFunction poptions = Some f
      \<and> paginatedCollectionStoreCallback presult data col (queryParams poptions) = (Inr its, cs) \<longrightarrow>
      items (fst (paginatedCollectionStore_handler poptions col presult data))
        = js_filter (f (filterFunctionThisArg poptions)) (js_sort (Some cmp) its))"
  by (auto simp: collectionStore_handler_def paginatedCollectionStore_handler_def sort_then_filter_def)

theorem sort_before_filter_witness:
  "fst (collectionStore_handler (demo_options (Some byFieldAsc) (Some positive) None) demo_collection
          [ent ''a'' 3, ent ''b'' (- 1)] (event ''create'' (ent ''c'' 2)))
     = [ent ''c'' 2, ent ''a'' 3]
   \<and> items (fst (paginatedCollectionStore_handler (demo_options (Some byFieldAsc) (Some positive) None)
          demo_collection (demo_page\<lparr>items := [ent ''a'' 3, ent ''b'' (- 1)]\<rparr>)
          (event ''create'' (ent ''c'' 2))))
     = [ent ''c'' 2, ent ''a'' 3]
   \<and> fst (collectionStore_handler (demo_options (Some byFieldAsc) (Some first_two) None) demo_collection
          [ent ''a'' 3, ent ''b'' 1] (event ''create'' (ent ''c'' 2)))
     = [ent ''b'' 1, ent ''c'' 2]
   \<and> js_sort (Some byFieldAsc) (js_filter (first_two ()) [ent ''a'' 3, ent ''b'' 1, ent ''c'' 2])
     = [ent ''b'' 1, ent ''a'' 3]"
proof -
  let ?o = "demo_options (Some byFieldAsc) (Some positive) None
              :: (int, unit, int entity list) CollectionStoreOptions"
  let ?po = "demo_options (Some byFieldAsc) (Some positive) None
              :: (int, unit, int ListResult) CollectionStoreOptions"
  let ?o2 = "demo_options (Some byFieldAsc) (Some first_two) None
              :: (int, unit, int entity list) CollectionStoreOptions"
  let ?r = "[ent ''a'' 3, ent ''b'' (- 1)]"
  let ?pr = "demo_page\<lparr>items := ?r\<rparr>"
  let ?d = "event ''create'' (ent ''c'' 2)"
  have s1: "js_sort (Some byFieldAsc) [ent ''a'' 3, ent ''b'' (- 1), ent ''c'' 2]
              = [ent ''b'' (- 1), ent ''c'' 2, ent ''a'' 3]"
    by (simp add: SortCompare_def byFieldAsc_def ent_def)
  have f1: "js_filter (positive ()) [ent ''b'' (- 1), ent ''c'' 2, ent ''a'' 3]
              = [ent ''c'' 2, ent ''a'' 3]"
    by (simp add: js_filter_def positive_def ent_def)
  have s2: "js_sort (Some byFieldAsc) [ent ''a'' 3, ent ''b'' 1, ent ''c'' 2]
              = [ent ''b'' 1, ent ''c'' 2, ent ''a'' 3]"
    by (simp add: SortCompare_def byFieldAsc_def ent_def)
  have f2: "js_filter (first_two ()) [ent ''b'' 1, ent ''c'' 2, ent ''a'' 3]
              = [ent ''b'' 1, ent ''c'' 2]"
    by (simp add: js_filter_def first_two_def)
  have f3: "js_filter (first_two ()) [ent ''a'' 3, ent ''b'' 1, ent ''c'' 2]
              = [ent ''a'' 3, ent ''b'' 1]"
    by (simp add: js_filter_def first_two_def)
  have s3: "js_sort (Some byFieldAsc) [ent ''a'' 3, ent ''b'' 1] = [ent ''b'' 1, ent ''a'' 3]"
    by (simp add: SortCompare_def byFieldAsc_def ent_def)
  have a: "fst (collectionStore_handler ?o demo_collection ?r ?d) = [ent ''c'' 2, ent ''a'' 3]"
    using sort_before_filter [where options = ?o and cmp = byFieldAsc and f = positive
        and result = ?r and data = ?d and col = demo_collection
        and its = "?r @ [ent ''c'' 2]" and cs = "[]"] demo_create(1) [of ?r "ent ''c'' 2"] s1 f1
    by (simp add: demo_options_def)
  have b: "items (fst (paginatedCollectionStore_handler ?po demo_collection ?pr ?d))
             = [ent ''c'' 2, ent ''a'' 3]"
    using sort_before_filter [where poptions = ?po and cmp = byFieldAsc and f = positive
        and presult = ?pr and data = ?d and col = demo_collection
        and its = "?r @ [ent ''c'' 2]" and cs = "[]"] demo_create(2) [of ?pr "ent ''c'' 2"] s1 f1
    by (simp add: demo_options_def)
  have c: "fst (collectionStore_handler ?o2 demo_collection [ent ''a'' 3, ent ''b'' 1] ?d)
             = [ent ''b'' 1, ent ''c'' 2]"
    using sort_before_filter [where options = ?o2 and cmp = byFieldAsc and f = first_two
        and result = "[ent ''a'' 3, ent ''b'' 1]" and data = ?d and col = demo_collection
        and its = "[ent ''a'' 3, ent ''b'' 1] @ [ent ''c'' 2]" and cs = "[]"]
      demo_create(1) [of "[ent ''a'' 3, ent ''b'' 1]" "ent ''c'' 2"] s2 f2
    by (simp add: demo_options_def)
  from a b c f3 s3 show ?thesis by simp
qed

text \<open>
  C4. When no \<open>sortFunction\<close> is given, the sequence a collection store publishes after
  an event is in the post-mutation order: it is the sequence the callback returned when
  there is no \<open>filterFunction\<close> either, and otherwise the filter of that sequence, which
  keeps the relative order of what it keeps. (\<open>sort\<close> is still called, with an undefined
  comparator; it compares the \<open>ToString\<close> values, which are equal for all entities, and a
  stable sort then moves nothing.)
\<close>

theorem no_sortFunction_keeps_order:
  "sortFunction options = None
     \<and> collectionStoreCallback result data col (queryParams options) = (Inr its, cs) \<longrightarrow>
     subseq (fst (collectionStore_handler options col result data)) its
     \<and> (filterFunction options = None \<longrightarrow>
           fst (collectionStore_handler options col result data) = its)
     \<and> (\<forall>f. filterFunction options = Some f \<longrightarrow>
           fst (collectionStore_handler options col result data)
             = js_filter (f (filterFunctionThisArg options)) its)"
  by (auto simp: collectionStore_handler_def sort_then_filter_def js_sort_default js_filter_subseq
      split: option.splits)

theorem no_sortFunction_keeps_order_witness:
  "fst (collectionStore_handler (demo_options None None None) demo_collection
          [ent ''a'' 3, ent ''b'' (- 1)] (event ''create'' (ent ''c'' 2)))
     = [ent ''a'' 3, ent ''b'' (- 1), ent ''c'' 2]
   \<and> fst (collectionStore_handler (demo_options None (Some positive) None) demo_collection
          [ent ''a'' 3, ent ''b'' (- 1)] (event ''create'' (ent ''c'' 2)))
     = [ent ''a'' 3, ent ''c'' 2]"
proof -
  let ?o = "demo_options None None None :: (int, unit, int entity list) CollectionStoreOptions"
  let ?o2 = "demo_options None (Some positive) None
               :: (int, unit, int entity list) CollectionStoreOptions"
  let ?r = "[ent ''a'' 3, ent ''b'' (- 1)]"
  let ?d = "event ''create'' (ent ''c'' 2)"
  have f1: "js_filter (positive ()) [ent ''a'' 3, ent ''b'' (- 1), ent ''c'' 2]
              = [ent ''a'' 3, ent ''c'' 2]"
    by (simp add: js_filter_def positive_def ent_def)
  have a: "fst (collectionStore_handler ?o demo_collection ?r ?d)
             = [ent ''a'' 3, ent ''b'' (- 1), ent ''c'' 2]"
    using no_sortFunction_keeps_order [where options = ?o and result = ?r and data = ?d
        and col = demo_collection and its = "?r @ [ent ''c'' 2]" and cs = "[]"]
      demo_create(1) [of ?r "ent ''c'' 2"]
    by (simp add: demo_options_def)
  have b: "fst (collectionStore_handler ?o2 demo_collection ?r ?d) = [ent ''a'' 3, ent ''c'' 2]"
    using no_sortFunction_keeps_order [where options = ?o2 and result = ?r and data = ?d
        and col = demo_collection and its = "?r @ [ent ''c'' 2]" and cs = "[]"]
      demo_create(1) [of ?r "ent ''c'' 2"] f1
    by (simp add: demo_options_def)
  from a b show ?thesis by simp
qed

section \<open>Teardown\<close>

lemma teardown_inv_created: "teardown_inv 0 (store_created d)"
  by (simp add: teardown_inv_def store_created_def call_release_def)

lemma teardown_inv_occur:
  "teardown_inv n t \<Longrightarrow> teardown_inv (if oc = Unsubscribe then Suc n else n) (occur oc t)"
  by (cases oc; cases "unsubscribePromise t")
    (auto simp: teardown_inv_def unsubscribe_def settle_def call_release_def
      split: release_fn.splits)

lemma teardown_inv_run:
  "teardown_inv n t \<Longrightarrow> teardown_inv (n + unsubscribes ocs) (teardown_run ocs t)"
proof (induction ocs arbitrary: n t)
  case Nil
  then show ?case by (simp add: unsubscribes_def)
next
  case (Cons oc ocs)
  from teardown_inv_occur [OF Cons.prems, of oc]
  have "teardown_inv (if oc = Unsubscribe then Suc n else n) (occur oc t)" .
  from Cons.IH [OF this] show ?case
    by (cases "oc = Unsubscribe") (simp_all add: unsubscribes_def)
qed

lemma disabled_stays:
  "unsubscribePromise t = Fulfilled f \<Longrightarrow> unsubscribePromise (teardown_run ocs t) = Fulfilled f"
proof (induction ocs arbitrary: t)
  case Nil
  then show ?case by simp
next
  case (Cons oc ocs)
  have "unsubscribePromise (occur oc t) = Fulfilled f"
    using Cons.prems by (cases oc) (simp_all add: unsubscribe_def settle_def)
  then show ?case using Cons.IH by simp
qed

text \<open>
  C5, as the code has it. A call of \<open>unsubscribe\<close> never throws to its caller. Each call
  waits for the acquisition promise and then calls the function the promise gave, once
  per call of \<open>unsubscribe\<close>, with no guard against a second call: while the acquisition is
  pending the backend's release function has not been called; once the subscription is
  acquired it has been called as many times as \<open>unsubscribe\<close> was called (twice after two
  calls); it is never called when the acquisition failed or when \<open>disableRealtime\<close> is
  set, where the promise holds a function that calls nothing.
\<close>

theorem teardown_release_count:
  "snd (unsubscribe (teardown_run ocs (store_created d))) = None
   \<and> (unsubscribePromise (teardown_run ocs (store_created d)) = Pending \<longrightarrow>
        release_calls (teardown_run ocs (store_created d)) = 0)
   \<and> (unsubscribePromise (teardown_run ocs (store_created d)) = Fulfilled BackendRelease \<longrightarrow>
        release_calls (teardown_run ocs (store_created d)) = unsubscribes ocs)
   \<and> (unsubscribePromise (teardown_run ocs (store_created d)) = Fulfilled NoBackendRelease
        \<or> (\<exists>err. unsubscribePromise (teardown_run ocs (store_created d)) = Rejected err) \<longrightarrow>
        release_calls (teardown_run ocs (store_created d)) = 0)
   \<and> (d \<longrightarrow> unsubscribePromise (teardown_run ocs (store_created d)) = Fulfilled NoBackendRelease)"
proof -
  let ?t = "teardown_run ocs (store_created d)"
  have inv: "teardown_inv (unsubscribes ocs) ?t"
    using teardown_inv_run [OF teardown_inv_created, of ocs d] by simp
  have err: "snd (unsubscribe ?t) = None"
    by (simp add: unsubscribe_def split: promise.splits)
  have dis: "d \<longrightarrow> unsubscribePromise ?t = Fulfilled NoBackendRelease"
    by (simp add: disabled_stays store_created_def)
  from inv err dis show ?thesis
    by (auto simp: teardown_inv_def call_release_def)
qed

theorem teardown_release_count_witness:
  "release_calls (teardown_run [Unsubscribe, Acquired, Unsubscribe] (store_created False)) = 2
   \<and> release_calls (teardown_run [Unsubscribe, Unsubscribe] (store_created False)) = 0
   \<and> release_calls (teardown_run [Unsubscribe, Unsubscribe] (store_created True)) = 0"
proof -
  have p1: "unsubscribePromise (teardown_run [Unsubscribe, Acquired, Unsubscribe] (store_created False))
              = Fulfilled BackendRelease"
    by (simp add: store_created_def unsubscribe_def settle_def call_release_def)
  have p2: "unsubscribePromise (teardown_run [Unsubscribe, Unsubscribe] (store_created False)) = Pending"
    by (simp add: store_created_def unsubscribe_def settle_def call_release_def)
  have a: "release_calls (teardown_run [Unsubscribe, Acquired, Unsubscribe] (store_created False)) = 2"
    using teardown_release_count [of "[Unsubscribe, Acquired, Unsubscribe]" False] p1
    by (simp add: unsubscribes_def)
  have b: "release_calls (teardown_run [Unsubscribe, Unsubscribe] (store_created False)) = 0"
    using teardown_release_count [of "[Unsubscribe, Unsubscribe]" False] p2 by simp
  have c: "release_calls (teardown_run [Unsubscribe, Unsubscribe] (store_created True)) = 0"
    using teardown_release_count [of "[Unsubscribe, Unsubscribe]" True] by simp
  from a b c show ?thesis by simp
qed

text \<open>
  Two calls of \<open>unsubscribe\<close> call the backend's release function twice, whether the
  subscription was acquired before the calls or after them.
\<close>

theorem teardown_twice_releases_twice:
  "release_calls (teardown_run [Acquired, Unsubscribe, Unsubscribe] (store_created False)) = 2
   \<and> release_calls (teardown_run [Unsubscribe, Unsubscribe, Acquired] (store_created False)) = 2"
  by (simp add: store_created_def unsubscribe_def settle_def call_release_def)

section \<open>A stream of events and the table of entities\<close>

lemma set_sort_insert: "set (sort_insert c x ys) = insert x (set ys)"
  by (induction ys) auto

lemma set_js_sort: "set (js_sort c xs) = set xs"
  by (induction xs) (auto simp: set_sort_insert)

lemma ids_sort_insert:
  "distinct (map id_str (sort_insert c x ys))
     = (id_str x \<notin> id_str ` set ys \<and> distinct (map id_str ys))"
  by (induction ys) (auto simp: set_sort_insert)

lemma ids_js_sort: "distinct (map id_str (js_sort c xs)) = distinct (map id_str xs)"
  by (induction xs) (auto simp: ids_sort_insert set_js_sort)

lemma entity_table_js_sort:
  assumes "distinct (map id_str xs)"
  shows "entity_table (js_sort c xs) = entity_table xs"
proof -
  let ?p = "\<lambda>x. (id_str x, x)"
  have "distinct (map fst (map ?p (js_sort c xs)))" "distinct (map fst (map ?p xs))"
    using assms by (simp_all add: comp_def ids_js_sort)
  moreover have "set (map ?p (js_sort c xs)) = set (map ?p xs)"
    by (simp add: set_js_sort)
  ultimately show ?thesis
    unfolding entity_table_def by (simp only: map_of_inject_set)
qed

lemma entity_table_None: "(entity_table xs k = None) = (k \<notin> id_str ` set xs)"
  by (simp add: entity_table_def map_of_eq_None_iff image_image)

lemma ids_update:
  "map id_str (map (\<lambda>item. if id_str item = id_str r then r else item) xs) = map id_str xs"
  by (induction xs) auto

lemma entity_table_update:
  "entity_table (map (\<lambda>item. if id_str item = id_str r then r else item) xs)
     = (case entity_table xs (id_str r) of
          None \<Rightarrow> entity_table xs
        | Some old \<Rightarrow> (entity_table xs)(id_str r \<mapsto> r))"
proof (induction xs)
  case Nil
  then show ?case by (simp add: entity_table_def)
next
  case (Cons a xs)
  then show ?case
    by (auto simp: entity_table_def fun_eq_iff split: option.splits)
qed

lemma entity_table_delete:
  "entity_table (filter (\<lambda>item. id_str item \<noteq> k) xs) = (entity_table xs)(k := None)"
  by (induction xs) (auto simp: entity_table_def fun_eq_iff)

lemma entity_table_create:
  "id_str r \<notin> id_str ` set xs \<Longrightarrow> entity_table (xs @ [r]) = (entity_table xs)(id_str r \<mapsto> r)"
  using entity_table_None [of xs "id_str r"]
  by (auto simp: entity_table_def fun_eq_iff map_add_def split: option.splits)

lemma distinct_ids_filter: "distinct (map id_str xs) \<Longrightarrow> distinct (map id_str (filter p xs))"
  by (simp add: distinct_map_filter)

lemma distinct_ids_update:
  "distinct (map id_str (map (\<lambda>item. if id_str item = id_str r then r else item) xs))
     = distinct (map id_str xs)"
  by (simp only: ids_update)

lemma callback_step:
  assumes d: "distinct (map id_str result)"
    and fresh: "creates_fresh options [(col, data)] result"
  shows "case fst (collectionStoreCallback result data col (queryParams options)) of
           Inl err \<Rightarrow>
             spec_apply (queryParams options) (entity_table result) (col, data) = entity_table result
         | Inr its \<Rightarrow>
             distinct (map id_str its)
             \<and> entity_table its = spec_apply (queryParams options) (entity_table result) (col, data)"
proof (cases "realtimeStoreExpand col (recordT data) (expand_of (queryParams options))")
  case (Pair res cs)
  show ?thesis
  proof (cases res)
    case (Inl err)
    with Pair d show ?thesis
      by (simp add: collectionStoreCallback_def spec_apply_def distinct_ids_filter
          entity_table_delete del: map_map)
  next
    case (Inr r)
    with Pair d fresh show ?thesis
      by (auto simp add: collectionStoreCallback_def spec_apply_def distinct_ids_filter
          entity_table_delete entity_table_update entity_table_create distinct_ids_update
          simp del: map_map split: if_splits)
  qed
qed

lemma handler_step:
  assumes nf: "filterFunction options = None"
    and d: "distinct (map id_str result)"
    and fresh: "creates_fresh options [(col, data)] result"
  shows "distinct (map id_str (fst (collectionStore_handler options col result data)))
     \<and> entity_table (fst (collectionStore_handler options col result data))
         = spec_apply (queryParams options) (entity_table result) (col, data)"
proof (cases "collectionStoreCallback result data col (queryParams options)")
  case (Pair res cs)
  show ?thesis
  proof (cases res)
    case (Inl err)
    with Pair callback_step [OF d fresh] d show ?thesis
      by (simp add: collectionStore_handler_def)
  next
    case (Inr its)
    with Pair callback_step [OF d fresh]
    have "distinct (map id_str its)"
      "entity_table its = spec_apply (queryParams options) (entity_table result) (col, data)"
      by simp_all
    with Pair Inr nf show ?thesis
      by (simp add: collectionStore_handler_def sort_then_filter_def ids_js_sort
          entity_table_js_sort)
  qed
qed

lemma run_table:
  assumes nf: "filterFunction options = None"
  shows "distinct (map id_str result) \<Longrightarrow> creates_fresh options steps result \<Longrightarrow>
     distinct (map id_str (handled_in_turn options steps result))
     \<and> entity_table (handled_in_turn options steps result)
         = spec_live (queryParams options) (entity_table result) steps"
proof (induction steps arbitrary: result)
  case Nil
  then show ?case by simp
next
  case (Cons step steps)
  obtain col data where step: "step = (col, data)" by (cases step)
  let ?next = "fst (collectionStore_handler options col result data)"
  from Cons.prems(2) step have f1: "creates_fresh options [(col, data)] result"
    and f2: "creates_fresh options steps ?next"
    by simp_all
  from handler_step [OF nf Cons.prems(1) f1]
  have d': "distinct (map id_str ?next)"
    and t': "entity_table ?next = spec_apply (queryParams options) (entity_table result) (col, data)"
    by simp_all
  from Cons.IH [OF d' f2] step t' show ?case by simp
qed

lemma entity_table_Some:
  "distinct (map id_str xs) \<Longrightarrow> (entity_table xs k = Some x) = (x \<in> set xs \<and> id_str x = k)"
  by (auto simp: entity_table_def comp_def)

lemmas demo_eval =
  collectionStore_handler_def collectionStoreCallback_def realtimeStoreExpand_def expand_of_def
  truthy_str_def demo_options_def event_def sort_then_filter_def js_filter_def SortCompare_def
  byFieldAsc_def positive_def not_first_def ent_def toString_entity_def str_less_irrefl

section \<open>The filter works on the stored snapshot\<close>

lemma set_filter_from: "set (filter_from f arr i xs) \<subseteq> set xs"
  by (induction xs arbitrary: i) auto

lemma set_sort_then_filter: "set (sort_then_filter options its) \<subseteq> set its"
  using set_filter_from [of _ _ 0 "js_sort (sortFunction options) its"]
  by (auto simp: sort_then_filter_def js_filter_def set_js_sort split: option.splits)

lemma run_append:
  "handled_in_turn options (xs @ ys) result
     = handled_in_turn options ys (handled_in_turn options xs result)"
  by (induction xs arbitrary: result) auto

lemma update_absent_id:
  "id_str r \<notin> id_str ` set xs \<Longrightarrow>
     map (\<lambda>item. if id_str item = id_str r then r else item) xs = xs"
  by (induction xs) auto

lemma ids_image_update:
  "id_str ` set (map (\<lambda>item. if id_str item = id_str r then r else item) xs) = id_str ` set xs"
  by (induction xs) auto

lemma callback_ids:
  assumes cb: "collectionStoreCallback result data col qp = (Inr its, cs)"
    and nc: "action data = ''create'' \<longrightarrow>
           (\<forall>r. fst (realtimeStoreExpand col (recordT data) (expand_of qp)) = Inr r \<longrightarrow> id_str r \<noteq> k)"
    and absent: "k \<notin> id_str ` set result"
  shows "k \<notin> id_str ` set its"
proof (cases "realtimeStoreExpand col (recordT data) (expand_of qp)")
  case (Pair res cs')
  consider (u) "action data = ''update''" | (c) "action data = ''create''"
    | (d) "action data = ''delete''"
    | (o) "action data \<noteq> ''update''" "action data \<noteq> ''create''" "action data \<noteq> ''delete''"
    by blast
  then show ?thesis
  proof cases
    case u
    with cb Pair obtain r where "its = map (\<lambda>item. if id_str item = id_str r then r else item) result"
      by (cases res) (auto simp: collectionStoreCallback_def)
    with absent show ?thesis by (simp only: ids_image_update) simp
  next
    case c
    with cb Pair obtain r where r: "res = Inr r" "its = result @ [r]"
      by (cases res) (auto simp: collectionStoreCallback_def)
    with nc c Pair have "id_str r \<noteq> k" by simp
    with r absent show ?thesis by auto
  next
    case d
    with cb have "its = filter (\<lambda>item. id_str item \<noteq> id_str (recordT data)) result"
      by (simp add: collectionStoreCallback_def)
    with absent show ?thesis by auto
  next
    case o
    with cb have "its = result" by (simp add: collectionStoreCallback_def)
    with absent show ?thesis by simp
  qed
qed

lemma handler_ids:
  assumes "action data = ''create'' \<longrightarrow>
           (\<forall>r. fst (realtimeStoreExpand col (recordT data) (expand_of (queryParams options))) = Inr r
              \<longrightarrow> id_str r \<noteq> k)"
    and "k \<notin> id_str ` set result"
  shows "k \<notin> id_str ` set (fst (collectionStore_handler options col result data))"
proof (cases "collectionStoreCallback result data col (queryParams options)")
  case (Pair res cs)
  show ?thesis
  proof (cases res)
    case (Inl err)
    with Pair assms(2) show ?thesis by (simp add: collectionStore_handler_def)
  next
    case (Inr its)
    with Pair callback_ids [OF _ assms] have "k \<notin> id_str ` set its" by simp
    with set_sort_then_filter [of options its] Pair Inr show ?thesis
      by (auto simp: collectionStore_handler_def)
  qed
qed

lemma run_ids:
  "k \<notin> id_str ` set result \<Longrightarrow>
   (\<forall>(col, data) \<in> set steps. action data = ''create'' \<longrightarrow>
      (\<forall>r. fst (realtimeStoreExpand col (recordT data) (expand_of (queryParams options))) = Inr r
         \<longrightarrow> id_str r \<noteq> k)) \<Longrightarrow>
   k \<notin> id_str ` set (handled_in_turn options steps result)"
proof (induction steps arbitrary: result)
  case Nil
  then show ?case by simp
next
  case (Cons step steps)
  obtain col data where step: "step = (col, data)" by (cases step)
  from Cons.prems(2) step
  have here: "action data = ''create'' \<longrightarrow>
      (\<forall>r. fst (realtimeStoreExpand col (recordT data) (expand_of (queryParams options))) = Inr r
         \<longrightarrow> id_str r \<noteq> k)"
    by simp
  from Cons.prems(2)
  have rest: "\<forall>(col, data) \<in> set steps. action data = ''create'' \<longrightarrow>
      (\<forall>r. fst (realtimeStoreExpand col (recordT data) (expand_of (queryParams options))) = Inr r
         \<longrightarrow> id_str r \<noteq> k)"
    by simp
  from Cons.IH [OF handler_ids [OF here Cons.prems(1)] rest] step show ?case by simp
qed

text \<open>
  Sorting a sequence that is in order gives the same sequence, and for a comparator that
  is total and transitive the sorted sequence is in order.
\<close>

lemma js_sort_sorted_id:
  "sorted_wrt (\<lambda>x y. SortCompare c x y \<le> 0) xs \<Longrightarrow> js_sort c xs = xs"
proof (induction xs)
  case Nil
  then show ?case by simp
next
  case (Cons x xs)
  then have "js_sort c xs = xs" by simp
  moreover from Cons.prems have "sort_insert c x xs = x # xs"
    by (cases xs) auto
  ultimately show ?case by simp
qed

lemma sort_insert_sorted:
  assumes total: "\<forall>x y. SortCompare c x y \<le> 0 \<or> SortCompare c y x \<le> 0"
    and trans: "\<forall>x y z. SortCompare c x y \<le> 0 \<and> SortCompare c y z \<le> 0 \<longrightarrow> SortCompare c x z \<le> 0"
  shows "sorted_wrt (\<lambda>x y. SortCompare c x y \<le> 0) ys \<Longrightarrow>
     sorted_wrt (\<lambda>x y. SortCompare c x y \<le> 0) (sort_insert c x ys)"
proof (induction ys)
  case Nil
  then show ?case by simp
next
  case (Cons y ys)
  from Cons.prems have tail: "sorted_wrt (\<lambda>x y. SortCompare c x y \<le> 0) ys"
    and head: "\<forall>z \<in> set ys. SortCompare c y z \<le> 0"
    by simp_all
  show ?case
  proof (cases "0 < SortCompare c x y")
    case True
    from total have "SortCompare c x y \<le> 0 \<or> SortCompare c y x \<le> 0" by blast
    with True have yx: "SortCompare c y x \<le> 0" by simp
    from Cons.IH [OF tail] head yx True show ?thesis
      by (simp add: set_sort_insert)
  next
    case False
    then have xy: "SortCompare c x y \<le> 0" by simp
    have "\<forall>z \<in> set ys. SortCompare c x z \<le> 0"
    proof
      fix z assume "z \<in> set ys"
      with head have "SortCompare c y z \<le> 0" by simp
      with xy trans show "SortCompare c x z \<le> 0" by blast
    qed
    with Cons.prems xy False show ?thesis by simp
  qed
qed

lemma js_sort_sorted:
  assumes "\<forall>x y. SortCompare c x y \<le> 0 \<or> SortCompare c y x \<le> 0"
    and "\<forall>x y z. SortCompare c x y \<le> 0 \<and> SortCompare c y z \<le> 0 \<longrightarrow> SortCompare c x z \<le> 0"
  shows "sorted_wrt (\<lambda>x y. SortCompare c x y \<le> 0) (js_sort c xs)"
  by (induction xs) (simp_all add: sort_insert_sorted [OF assms])

lemma filter_from_position_free:
  assumes "\<forall>x i arr j arr'. f x i arr = f x j arr'"
  shows "filter_from f arr i xs = filter (\<lambda>x. f x 0 []) xs"
proof (induction xs arbitrary: i)
  case Nil
  then show ?case by simp
next
  case (Cons x xs)
  from assms have "f x i arr = f x 0 []" by blast
  with Cons show ?case by simp
qed

lemma sort_then_filter_again:
  assumes total: "\<forall>x y. SortCompare (sortFunction options) x y \<le> 0
                      \<or> SortCompare (sortFunction options) y x \<le> 0"
    and trans: "\<forall>x y z. SortCompare (sortFunction options) x y \<le> 0
                      \<and> SortCompare (sortFunction options) y z \<le> 0
                    \<longrightarrow> SortCompare (sortFunction options) x z \<le> 0"
    and vals: "\<forall>f. filterFunction options = Some f \<longrightarrow>
                 (\<forall>x i arr j arr'. f (filterFunctionThisArg options) x i arr
                                  = f (filterFunctionThisArg options) x j arr')"
  shows "sort_then_filter options (sort_then_filter options its) = sort_then_filter options its"
proof (cases "filterFunction options")
  case None
  then show ?thesis
    by (simp add: sort_then_filter_def js_sort_sorted_id js_sort_sorted [OF total trans])
next
  case (Some f)
  let ?c = "sortFunction options"
  let ?p = "\<lambda>x. f (filterFunctionThisArg options) x 0 []"
  from vals Some
  have pf: "\<forall>x i arr j arr'. f (filterFunctionThisArg options) x i arr
                            = f (filterFunctionThisArg options) x j arr'"
    by blast
  have flt: "\<And>xs. js_filter (f (filterFunctionThisArg options)) xs = filter ?p xs"
    by (simp add: js_filter_def filter_from_position_free [OF pf])
  have "sorted_wrt (\<lambda>x y. SortCompare ?c x y \<le> 0) (filter ?p (js_sort ?c its))"
    using js_sort_sorted [OF total trans, of its] by (rule sorted_wrt_filter)
  then have "js_sort ?c (filter ?p (js_sort ?c its)) = filter ?p (js_sort ?c its)"
    by (rule js_sort_sorted_id)
  with Some flt show ?thesis by (simp add: sort_then_filter_def)
qed

section \<open>Handlers that do not overlap\<close>

lemma publish_published:
  "published (publish options a st) = sort_then_filter options (heap st a)"
  by (simp add: publish_def published_def sort_then_filter_def new_array_def split: option.splits)

lemma publish_suspended: "suspended (publish options a st) = suspended st"
  by (simp add: publish_def new_array_def split: option.splits)

lemma callback_default:
  "action data \<noteq> ''update'' \<Longrightarrow> action data \<noteq> ''create'' \<Longrightarrow> action data \<noteq> ''delete'' \<Longrightarrow>
     collectionStoreCallback xs data col qp = (Inr xs, [])"
  by (simp add: collectionStoreCallback_def)

lemma callback_delete:
  "action data = ''delete'' \<Longrightarrow>
     collectionStoreCallback xs data col qp
       = (Inr (filter (\<lambda>item. id_str item \<noteq> id_str (recordT data)) xs), [])"
  by (simp add: collectionStoreCallback_def)

lemma serial_step:
  assumes "suspended st = []"
  shows "published (store_run options [Arrives col data, Resumes 0, Resumes 0] st)
           = fst (collectionStore_handler options col (published st) data)
         \<and> suspended (store_run options [Arrives col data, Resumes 0, Resumes 0] st) = []"
proof -
  consider (read) "action data = ''update'' \<or> action data = ''create''"
    | (del) "action data = ''delete''"
    | (other) "action data \<noteq> ''update''" "action data \<noteq> ''create''" "action data \<noteq> ''delete''"
    by blast
  then show ?thesis
  proof cases
    case read
    show ?thesis
    proof (cases "fst (collectionStoreCallback (published st) data col (queryParams options))")
      case (Inl err)
      with read assms show ?thesis
        by (cases "collectionStoreCallback (published st) data col (queryParams options)")
          (auto simp: arrive_def resume_def collectionStore_handler_def published_def)
    next
      case (Inr its)
      with read assms show ?thesis
        by (cases "collectionStoreCallback (published st) data col (queryParams options)")
          (auto simp: arrive_def resume_def collectionStore_handler_def published_def [of st]
            publish_published publish_suspended new_array_def)
    qed
  next
    case del
    with assms callback_delete [OF del, of "published st" col "queryParams options"]
    show ?thesis
      by (simp add: arrive_def resume_def collectionStore_handler_def
          publish_published publish_suspended new_array_def)
  next
    case other
    with assms callback_default [OF other, of "published st" col "queryParams options"]
    show ?thesis
      by (simp add: arrive_def resume_def collectionStore_handler_def
          publish_published publish_suspended published_def [of st])
  qed
qed

lemma store_run_append:
  "store_run options (xs @ ys) st = store_run options ys (store_run options xs st)"
  by (induction xs arbitrary: st) auto

lemma serial_Cons:
  "serial ((col, data) # steps) = [Arrives col data, Resumes 0, Resumes 0] @ serial steps"
  by (simp add: serial_def)

lemma serial_in_turn:
  "suspended st = [] \<Longrightarrow>
     published (store_run options (serial steps) st) = handled_in_turn options steps (published st)
     \<and> suspended (store_run options (serial steps) st) = []"
proof (induction steps arbitrary: st)
  case Nil
  then show ?case by (simp add: serial_def)
next
  case (Cons step steps)
  obtain col data where step: "step = (col, data)" by (cases step)
  let ?st = "store_run options [Arrives col data, Resumes 0, Resumes 0] st"
  from serial_step [OF Cons.prems, of options col data]
  have p: "published ?st = fst (collectionStore_handler options col (published st) data)"
    and s: "suspended ?st = []"
    by simp_all
  from Cons.IH [OF s] p show ?case
    unfolding step serial_Cons store_run_append by simp
qed

lemma store_holding_published: "published (store_holding xs) = xs" "suspended (store_holding xs) = []"
  by (simp_all add: store_holding_def published_def)

lemma consistent_default: "consistent_comparator (SortCompare None)"
  by (simp add: consistent_comparator_def SortCompare_default)

lemma consistent_le:
  assumes "consistent_comparator c"
  shows "\<forall>x y. c x y \<le> 0 \<or> c y x \<le> 0"
    and "\<forall>x y z. c x y \<le> 0 \<and> c y z \<le> 0 \<longrightarrow> c x z \<le> 0"
proof -
  from assms have anti: "\<And>x y. (c x y < 0) = (0 < c y x)"
    and lt: "\<And>x y z. c x y < 0 \<Longrightarrow> c y z < 0 \<Longrightarrow> c x z < 0"
    and eq: "\<And>x y z. c x y = 0 \<Longrightarrow> c y z = 0 \<Longrightarrow> c x z = 0"
    unfolding consistent_comparator_def by blast+
  show "\<forall>x y. c x y \<le> 0 \<or> c y x \<le> 0"
  proof (intro allI)
    fix x y
    from anti [of y x] show "c x y \<le> 0 \<or> c y x \<le> 0" by linarith
  qed
  show "\<forall>x y z. c x y \<le> 0 \<and> c y z \<le> 0 \<longrightarrow> c x z \<le> 0"
  proof (intro allI impI)
    fix x y z
    assume a: "c x y \<le> 0 \<and> c y z \<le> 0"
    show "c x z \<le> 0"
    proof (rule ccontr)
      assume "\<not> c x z \<le> 0"
      then have "0 < c x z" by simp
      with anti [of z x] have zx: "c z x < 0" by simp
      consider (ll) "c x y < 0" "c y z < 0" | (le) "c x y < 0" "c y z = 0"
        | (el) "c x y = 0" "c y z < 0" | (ee) "c x y = 0" "c y z = 0"
        using a by linarith
      then show False
      proof cases
        case ll
        from lt [OF ll] \<open>0 < c x z\<close> show False by simp
      next
        case le
        from lt [OF zx le(1)] have "c z y < 0" .
        with anti [of z y] le(2) show False by simp
      next
        case el
        from lt [OF el(2) zx] have "c y x < 0" .
        with anti [of y x] el(1) show False by simp
      next
        case ee
        from eq [OF ee] \<open>0 < c x z\<close> show False by simp
      qed
    qed
  qed
qed

text \<open>
  For a consistent comparator \<open>js_sort\<close> is the stable sort: its result has the elements
  of the array, each as often, is in order, and keeps elements that compare equal in
  the order they had.
\<close>

lemma count_sort_insert: "count_list (sort_insert c x ys) z = count_list (x # ys) z"
  by (induction ys) auto

lemma count_js_sort: "count_list (js_sort c xs) z = count_list xs z"
  by (induction xs) (auto simp: count_sort_insert)

lemma filter_sort_insert_other:
  "\<not> P a \<Longrightarrow> filter P (sort_insert c a ys) = filter P ys"
  by (induction ys) auto

lemma filter_sort_insert_tie:
  assumes "consistent_comparator (SortCompare c)" and "SortCompare c x a = 0"
  shows "filter (\<lambda>y. SortCompare c x y = 0) (sort_insert c a ys)
           = a # filter (\<lambda>y. SortCompare c x y = 0) ys"
proof (induction ys)
  case Nil
  with assms(2) show ?case by simp
next
  case (Cons y ys)
  from assms(1) have anti: "\<And>u v. (SortCompare c u v < 0) = (0 < SortCompare c v u)"
    and eq: "\<And>u v w. SortCompare c u v = 0 \<Longrightarrow> SortCompare c v w = 0 \<Longrightarrow> SortCompare c u w = 0"
    unfolding consistent_comparator_def by blast+
  show ?case
  proof (cases "0 < SortCompare c a y")
    case True
    have "SortCompare c x y \<noteq> 0"
    proof
      assume xy: "SortCompare c x y = 0"
      from anti [of a x] anti [of x a] assms(2) have "SortCompare c a x = 0" by linarith
      from eq [OF this xy] True show False by simp
    qed
    with True Cons show ?thesis by simp
  next
    case False
    with assms(2) show ?thesis by simp
  qed
qed

lemma js_sort_stable:
  assumes "consistent_comparator (SortCompare c)"
  shows "filter (\<lambda>y. SortCompare c x y = 0) (js_sort c xs)
           = filter (\<lambda>y. SortCompare c x y = 0) xs"
proof (induction xs)
  case Nil
  then show ?case by simp
next
  case (Cons a xs)
  show ?case
  proof (cases "SortCompare c x a = 0")
    case True
    from filter_sort_insert_tie [OF assms True, of "js_sort c xs"] Cons True
    show ?thesis by simp
  next
    case False
    with filter_sort_insert_other [of "\<lambda>y. SortCompare c x y = 0" a c "js_sort c xs"] Cons
    show ?thesis by simp
  qed
qed

lemma js_sort_in_order:
  "consistent_comparator (SortCompare c) \<Longrightarrow>
     sorted_wrt (\<lambda>x y. SortCompare c x y \<le> 0) (js_sort c xs)"
  using js_sort_sorted [OF consistent_le] by blast

lemma sort_then_filter_settled:
  assumes "consistent_comparator (SortCompare (sortFunction options))"
    and "\<forall>f. filterFunction options = Some f \<longrightarrow>
                 (\<forall>x i arr j arr'. f (filterFunctionThisArg options) x i arr
                                  = f (filterFunctionThisArg options) x j arr')"
  shows "sort_then_filter options (sort_then_filter options its) = sort_then_filter options its"
  using sort_then_filter_again [OF consistent_le [OF assms(1)] assms(2)] .

lemmas live_eval =
  arrive_def resume_def publish_def new_array_def store_holding_def published_def serial_def
  demo_collection_def demo_answering_def expand_only_def

text \<open>
  C2, as the code has it. For a collection store without a \<open>filterFunction\<close> whose
  handlers do not overlap (the handler of each event has ended before the next event
  arrives), a snapshot whose ids are pairwise distinct, and a finite stream of events in
  which no create event brings an id that the sequence holds when the event is handled:
  the resulting sequence has pairwise distinct ids, and an entity is in it exactly when
  it is the entry of its id in the table of the specification, that is, the id was in
  the snapshot or was created, has not been deleted since, and the entity is the one of
  the last create or update applied for that id. (The statement does not depend on the
  order a sort produces.)
\<close>

theorem one_entity_per_id_without_overlap:
  assumes "filterFunction options = None"
    and "distinct (map id_str result)"
    and "creates_fresh options steps result"
  shows "distinct (map id_str (published (store_run options (serial steps) (store_holding result))))
     \<and> (\<forall>k x. (x \<in> set (published (store_run options (serial steps) (store_holding result)))
                 \<and> id_str x = k)
            = (spec_live (queryParams options) (entity_table result) steps k = Some x))"
proof -
  let ?final = "published (store_run options (serial steps) (store_holding result))"
  have turn: "?final = handled_in_turn options steps result"
    using serial_in_turn [of "store_holding result" options steps]
    by (simp add: store_holding_published)
  from run_table [OF assms]
  have d: "distinct (map id_str ?final)"
    and t: "entity_table ?final = spec_live (queryParams options) (entity_table result) steps"
    unfolding turn by simp_all
  from d t entity_table_Some [OF d] show ?thesis by simp
qed

theorem one_entity_per_id_without_overlap_witness:
  "creates_fresh (demo_options (Some byFieldAsc) None (Some ''author''))
      [(demo_collection, event ''create'' (ent ''b'' 1)),
       (demo_collection, event ''update'' (ent ''a'' 5)),
       (demo_collection, event ''delete'' (ent ''b'' 1)),
       (demo_answering 2, event ''create'' (ent ''c'' 9))] [ent ''a'' 3]
   \<and> published (store_run (demo_options (Some byFieldAsc) None (Some ''author''))
      (serial [(demo_collection, event ''create'' (ent ''b'' 1)),
               (demo_collection, event ''update'' (ent ''a'' 5)),
               (demo_collection, event ''delete'' (ent ''b'' 1)),
               (demo_answering 2, event ''create'' (ent ''c'' 9))])
      (store_holding [ent ''a'' 3]))
     = [ent ''c'' 2, ent ''a'' 7]
   \<and> spec_live (queryParams (demo_options (Some byFieldAsc) None (Some ''author'')
                   :: (int, unit, int entity list) CollectionStoreOptions))
      (entity_table [ent ''a'' 3])
      [(demo_collection, event ''create'' (ent ''b'' 1)),
       (demo_collection, event ''update'' (ent ''a'' 5)),
       (demo_collection, event ''delete'' (ent ''b'' 1)),
       (demo_answering 2, event ''create'' (ent ''c'' 9))] ''a'' = Some (ent ''a'' 7)"
proof -
  let ?o = "demo_options (Some byFieldAsc) None (Some ''author'')
              :: (int, unit, int entity list) CollectionStoreOptions"
  let ?steps = "[(demo_collection, event ''create'' (ent ''b'' 1)),
       (demo_collection, event ''update'' (ent ''a'' 5)),
       (demo_collection, event ''delete'' (ent ''b'' 1)),
       (demo_answering 2, event ''create'' (ent ''c'' 9))]"
  have nf: "filterFunction ?o = None"
    by (simp add: demo_options_def)
  have d: "distinct (map id_str [ent ''a'' 3])" by simp
  have fr: "creates_fresh ?o ?steps [ent ''a'' 3]"
    by (simp add: demo_eval live_eval)
  have run: "published (store_run ?o (serial ?steps) (store_holding [ent ''a'' 3]))
               = [ent ''c'' 2, ent ''a'' 7]"
    by (simp add: demo_eval live_eval)
  from one_entity_per_id_without_overlap [OF nf d fr]
  have "(ent ''a'' 7 \<in> set (published (store_run ?o (serial ?steps) (store_holding [ent ''a'' 3])))
          \<and> id_str (ent ''a'' 7) = ''a'')
        = (spec_live (queryParams ?o) (entity_table [ent ''a'' 3]) ?steps ''a'' = Some (ent ''a'' 7))"
    by blast
  with run
  have "spec_live (queryParams ?o) (entity_table [ent ''a'' 3]) ?steps ''a'' = Some (ent ''a'' 7)"
    by (simp add: ent_def)
  with fr run show ?thesis by simp
qed

text \<open>
  A snapshot can hold two entities with one id. A create event for an id that the
  sequence holds appends a second entity with that id, from a snapshot and from two
  creates alike. With a filter, an entity that was
  created and never deleted can be missing: the filter removed it, and later updates do
  not find it. And when two creates overlap, both waiting for their expansion reads, the
  second starts from the snapshot the first started from, and the entity of the first
  is lost when the second ends.
\<close>

theorem one_per_id_fails:
  "published (store_run (demo_options None None None) (serial [])
      (store_holding [ent ''a'' 1, ent ''a'' 2]))
     = [ent ''a'' 1, ent ''a'' 2]
   \<and> published (store_run (demo_options None None None)
      (serial [(demo_collection, event ''create'' (ent ''a'' 2))]) (store_holding [ent ''a'' 1]))
     = [ent ''a'' 1, ent ''a'' 2]
   \<and> published (store_run (demo_options None None None)
      (serial [(demo_collection, event ''create'' (ent ''a'' 1)),
               (demo_collection, event ''create'' (ent ''a'' 2))]) (store_holding []))
     = [ent ''a'' 1, ent ''a'' 2]
   \<and> published (store_run (demo_options None (Some positive) None)
      (serial [(demo_collection, event ''create'' (ent ''a'' 1)),
               (demo_collection, event ''update'' (ent ''a'' (- 1))),
               (demo_collection, event ''update'' (ent ''a'' 4))]) (store_holding []))
     = []
   \<and> published (store_run (demo_options None None (Some ''author''))
      [Arrives demo_collection (event ''create'' (ent ''b'' 2)),
       Arrives demo_collection (event ''create'' (ent ''c'' 3)),
       Resumes 0, Resumes 0, Resumes 0, Resumes 0] (store_holding [ent ''a'' 1]))
     = [ent ''a'' 1, ent ''c'' 7]"
  by (simp add: demo_eval live_eval)

text \<open>
  C10, as the code has it. The handler assigns the filtered sequence to \<open>result\<close>, the
  snapshot of the next event, so the filter is destructive. As long as handlers do not
  overlap: once no entity of an id is in the sequence (the filter removed it), no later
  event brings that id back unless it is a create event whose entity has that id (a
  reload aside). An update event whose entity has that id is reconciled to the snapshot
  as it is, whatever the updated value, and the sequence published after it is the
  sort-then-filter of that snapshot, with no entity of that id. That sequence is the
  snapshot itself when the comparator is consistent (an absent \<open>sortFunction\<close> is) and
  the \<open>filterFunction\<close> depends on the entity alone; a filter that reads the index can
  remove further entities.
\<close>

theorem removed_entity_not_restored:
  "(k \<notin> id_str ` set (published (store_run options (serial before) (store_holding result)))
      \<and> (\<forall>(col, data) \<in> set later. action data = ''create'' \<longrightarrow>
            (\<forall>r. fst (realtimeStoreExpand col (recordT data) (expand_of (queryParams options))) = Inr r
               \<longrightarrow> id_str r \<noteq> k))
      \<longrightarrow> k \<notin> id_str ` set (published (store_run options (serial (before @ later))
                                             (store_holding result))))
   \<and> (suspended st = [] \<and> action data = ''update''
      \<and> realtimeStoreExpand col (recordT data) (expand_of (queryParams options)) = (Inr r, cs)
      \<and> id_str r \<notin> id_str ` set (published st)
      \<longrightarrow> collectionStoreCallback (published st) data col (queryParams options)
            = (Inr (published st), cs)
        \<and> published (store_run options [Arrives col data, Resumes 0, Resumes 0] st)
            = sort_then_filter options (published st)
        \<and> id_str r \<notin> id_str ` set (published (store_run options [Arrives col data, Resumes 0, Resumes 0] st))
        \<and> (consistent_comparator (SortCompare (sortFunction options))
             \<and> (\<forall>f. filterFunction options = Some f \<longrightarrow>
                    (\<forall>x i arr j arr'. f (filterFunctionThisArg options) x i arr
                                     = f (filterFunctionThisArg options) x j arr'))
             \<and> published st = sort_then_filter options its
             \<longrightarrow> published (store_run options [Arrives col data, Resumes 0, Resumes 0] st) = published st))"
proof (intro conjI impI)
  assume a: "k \<notin> id_str ` set (published (store_run options (serial before) (store_holding result)))
      \<and> (\<forall>(col, data) \<in> set later. action data = ''create'' \<longrightarrow>
            (\<forall>r. fst (realtimeStoreExpand col (recordT data) (expand_of (queryParams options))) = Inr r
               \<longrightarrow> id_str r \<noteq> k))"
  have turn: "\<And>steps. published (store_run options (serial steps) (store_holding result))
                = handled_in_turn options steps result"
    using serial_in_turn [of "store_holding result" options]
    by (simp add: store_holding_published)
  from a have "k \<notin> id_str ` set (handled_in_turn options later
                                  (handled_in_turn options before result))"
    unfolding turn using run_ids [of k "handled_in_turn options before result" later options]
    by blast
  then show "k \<notin> id_str ` set (published (store_run options (serial (before @ later))
                                             (store_holding result)))"
    unfolding turn by (simp add: run_append)
next
  assume u: "suspended st = [] \<and> action data = ''update''
      \<and> realtimeStoreExpand col (recordT data) (expand_of (queryParams options)) = (Inr r, cs)
      \<and> id_str r \<notin> id_str ` set (published st)"
  then show cb: "collectionStoreCallback (published st) data col (queryParams options)
                   = (Inr (published st), cs)"
    by (simp add: collectionStoreCallback_def update_absent_id)
  from u serial_step [of st options col data]
  have "published (store_run options [Arrives col data, Resumes 0, Resumes 0] st)
          = fst (collectionStore_handler options col (published st) data)"
    by simp
  with cb show h: "published (store_run options [Arrives col data, Resumes 0, Resumes 0] st)
                  = sort_then_filter options (published st)"
    by (simp add: collectionStore_handler_def)
  from u set_sort_then_filter [of options "published st"]
  show "id_str r \<notin> id_str ` set (published (store_run options [Arrives col data, Resumes 0, Resumes 0] st))"
    unfolding h by blast
  assume c: "consistent_comparator (SortCompare (sortFunction options))
             \<and> (\<forall>f. filterFunction options = Some f \<longrightarrow>
                    (\<forall>x i arr j arr'. f (filterFunctionThisArg options) x i arr
                                     = f (filterFunctionThisArg options) x j arr'))
             \<and> published st = sort_then_filter options its"
  then have "sort_then_filter options (sort_then_filter options its) = sort_then_filter options its"
    by (intro sort_then_filter_settled) blast+
  with c h show "published (store_run options [Arrives col data, Resumes 0, Resumes 0] st) = published st"
    by simp
qed

theorem removed_entity_not_restored_witness:
  "published (store_run (demo_options (Some byFieldAsc) (Some positive) (Some ''author''))
      (serial [(demo_answering 5, event ''create'' (ent ''a'' 0)),
               (demo_answering (- 1), event ''update'' (ent ''a'' 0))])
      (store_holding [ent ''b'' 2]))
     = [ent ''b'' 2]
   \<and> ''a'' \<notin> id_str ` set (published
      (store_run (demo_options (Some byFieldAsc) (Some positive) (Some ''author''))
        (serial ([(demo_answering 5, event ''create'' (ent ''a'' 0)),
                  (demo_answering (- 1), event ''update'' (ent ''a'' 0))]
                 @ [(demo_answering 9, event ''update'' (ent ''a'' 0))]))
        (store_holding [ent ''b'' 2])))
   \<and> published (store_run (demo_options (Some byFieldAsc) (Some positive) (Some ''author''))
        [Arrives (demo_answering 9) (event ''update'' (ent ''a'' 0)), Resumes 0, Resumes 0]
        (store_holding [ent ''b'' 2]))
     = [ent ''b'' 2]"
proof -
  let ?o = "demo_options (Some byFieldAsc) (Some positive) (Some ''author'')
              :: (int, unit, int entity list) CollectionStoreOptions"
  let ?before = "[(demo_answering 5, event ''create'' (ent ''a'' 0)),
                  (demo_answering (- 1), event ''update'' (ent ''a'' 0))]"
  let ?later = "[(demo_answering 9, event ''update'' (ent ''a'' 0))]"
  let ?d = "event ''update'' (ent ''a'' 0)"
  let ?st = "store_holding [ent ''b'' 2]"
  note inst = removed_entity_not_restored [where k = "''a''" and options = ?o and before = ?before
      and result = "[ent ''b'' 2]" and later = ?later and data = ?d and col = "demo_answering 9"
      and r = "ent ''a'' 9" and cs = "[GetOne ''a'' (Some (expand_only (Some ''author'')))]"
      and st = ?st and its = "[ent ''a'' (- 1), ent ''b'' 2]"]
  have run: "published (store_run ?o (serial ?before) ?st) = [ent ''b'' 2]"
    by (simp add: demo_eval live_eval)
  have absent: "''a'' \<notin> id_str ` set (published (store_run ?o (serial ?before) ?st))"
    unfolding run by (simp add: ent_def)
  have later: "\<forall>(col, data) \<in> set ?later. action data = ''create'' \<longrightarrow>
      (\<forall>r. fst (realtimeStoreExpand col (recordT data) (expand_of (queryParams ?o))) = Inr r
         \<longrightarrow> id_str r \<noteq> ''a'')"
    by (simp add: event_def)
  have upd: "suspended ?st = [] \<and> action ?d = ''update''
      \<and> realtimeStoreExpand (demo_answering 9) (recordT ?d) (expand_of (queryParams ?o))
          = (Inr (ent ''a'' 9), [GetOne ''a'' (Some (expand_only (Some ''author'')))])
      \<and> id_str (ent ''a'' 9) \<notin> id_str ` set (published ?st)"
    by (simp add: demo_eval live_eval)
  have cons: "consistent_comparator (SortCompare (sortFunction ?o))"
    by (auto simp: consistent_comparator_def demo_options_def SortCompare_def byFieldAsc_def)
  have vals: "\<forall>f. filterFunction ?o = Some f \<longrightarrow>
      (\<forall>x i arr j arr'. f (filterFunctionThisArg ?o) x i arr = f (filterFunctionThisArg ?o) x j arr')"
    by (simp add: demo_options_def positive_def)
  have snap: "published ?st = sort_then_filter ?o [ent ''a'' (- 1), ent ''b'' 2]"
    by (simp add: demo_eval live_eval)
  from inst absent later
  have a: "''a'' \<notin> id_str ` set (published (store_run ?o (serial (?before @ ?later)) ?st))"
    by blast
  from inst upd cons vals snap
  have "published (store_run ?o [Arrives (demo_answering 9) ?d, Resumes 0, Resumes 0] ?st) = published ?st"
    by blast
  then have b: "published (store_run ?o [Arrives (demo_answering 9) ?d, Resumes 0, Resumes 0] ?st) = [ent ''b'' 2]"
    by (simp add: store_holding_published)
  from run a b show ?thesis by blast
qed

text \<open>
  With the filter \<open>(x, i) => i > 0\<close> and no \<open>sortFunction\<close>: from the snapshot
  \<open>a, b, c\<close> an update event for \<open>b\<close> publishes \<open>b, c\<close> (the filter removed \<open>a\<close>), and the
  update event for \<open>a\<close> that follows publishes \<open>c\<close> alone. With the filter \<open>n > 0\<close> and an
  expand directive: an update for \<open>b\<close> is waiting for its read, holding \<open>a, b\<close>, while an
  update for \<open>a\<close> makes the filter remove \<open>a\<close>; when the update for \<open>b\<close> ends it
  publishes \<open>a, b\<close>, and \<open>a\<close> is back with no create and no reload.
\<close>

theorem update_changes_sequence_or_restores:
  "published (store_run (demo_options None (Some not_first) None)
      (serial [(demo_collection, event ''update'' (ent ''b'' 5))])
      (store_holding [ent ''a'' 1, ent ''b'' 2, ent ''c'' 3]))
     = [ent ''b'' 5, ent ''c'' 3]
   \<and> published (store_run (demo_options None (Some not_first) None)
      (serial [(demo_collection, event ''update'' (ent ''b'' 5)),
               (demo_collection, event ''update'' (ent ''a'' 9))])
      (store_holding [ent ''a'' 1, ent ''b'' 2, ent ''c'' 3]))
     = [ent ''c'' 3]
   \<and> published (store_run (demo_options None (Some positive) (Some ''author''))
      [Arrives (demo_answering 9) (event ''update'' (ent ''b'' 0)),
       Arrives (demo_answering (- 1)) (event ''update'' (ent ''a'' 0)),
       Resumes 1, Resumes 1]
      (store_holding [ent ''a'' 5, ent ''b'' 2]))
     = [ent ''b'' 2]
   \<and> published (store_run (demo_options None (Some positive) (Some ''author''))
      [Arrives (demo_answering 9) (event ''update'' (ent ''b'' 0)),
       Arrives (demo_answering (- 1)) (event ''update'' (ent ''a'' 0)),
       Resumes 1, Resumes 1, Resumes 0, Resumes 0]
      (store_holding [ent ''a'' 5, ent ''b'' 2]))
     = [ent ''a'' 5, ent ''b'' 9]"
  by (simp add: demo_eval live_eval)

end
